theory Spec2Isabelle
  imports Main
begin

section \<open>The two-level cache of \<^verbatim>\<open>helpers/cache.py\<close>\<close>

text \<open>
  The module keeps three globals (\<^verbatim>\<open>_USE_CACHING\<close>, \<^verbatim>\<open>_DISK_CACHE\<close>,
  \<^verbatim>\<open>_MEMORY_CACHE\<close>) and delegates storage to joblib. The model threads one
  record, the world, through every function: the module globals, joblib's module-level
  table of function hashes, the store directories by location, the heap of Python objects
  and a trace of what was done (lookups, loads, dumps, executions of the wrapped
  function, copies), in order. The trace is the model's own record of the run; the
  source keeps no such list.
\<close>

subsection \<open>Data\<close>

datatype error =
  AssertionError    \<comment> \<open>\<^verbatim>\<open>dbg.dassert_in\<close>, \<^verbatim>\<open>dbg.dassert\<close>, \<^verbatim>\<open>dbg.dfatal\<close>\<close>
  | IOError         \<comment> \<open>the store backend cannot open a file\<close>
  | IndexError      \<comment> \<open>\<^verbatim>\<open>xs[0]\<close> on an empty list\<close>
  | ValueError      \<comment> \<open>\<^verbatim>\<open>raise ValueError\<close>, \<^verbatim>\<open>int\<close> of a text that is no number\<close>
  | UnboundLocalError  \<comment> \<open>a local variable read before any assignment\<close>
  | ExternalError string  \<comment> \<open>raised inside a library call or by a failed external command\<close>

type_synonym func_id = string
type_synonym args_id = string

text \<open>An object is a reference into the heap; the heap holds the objects' contents.\<close>

type_synonym ref = nat

datatype event =
  Lookup string          \<comment> \<open>\<^verbatim>\<open>_has_cached_version(cache_type, ...)\<close> is asked\<close>
  | CallFunc             \<comment> \<open>the wrapped function runs\<close>
  | LoadItem string      \<comment> \<open>\<^verbatim>\<open>store_backend.load_item\<close> at a location\<close>
  | DumpItem string      \<comment> \<open>\<^verbatim>\<open>store_backend.dump_item\<close> at a location\<close>
  | Deepcopy             \<comment> \<open>\<^verbatim>\<open>copy.deepcopy\<close>\<close>

text \<open>
  A store directory of joblib: the pickled outputs by (function, arguments) digests, and
  per function the text \<^verbatim>\<open>func_code.py\<close>, kept here as the pair that
  \<^verbatim>\<open>extract_first_line\<close> reads back from it (source text, first line).
\<close>

record 'v store_backend =
  items :: "(func_id \<times> args_id) \<rightharpoonup> 'v"
  func_codes :: "func_id \<rightharpoonup> (string \<times> nat)"

text \<open>A \<^verbatim>\<open>joblib.Memory\<close> object: its identity and the directory it works on.\<close>

record memory =
  memory_oid :: nat
  location :: string

record 'v world =
  USE_CACHING :: bool
  DISK_CACHE :: "memory option"
  MEMORY_CACHE :: "memory option"
  FUNCTION_HASHES :: "nat \<rightharpoonup> (nat \<times> nat)"   \<comment> \<open>\<^verbatim>\<open>joblib.memory._FUNCTION_HASHES\<close>, keyed by function object\<close>
  next_oid :: nat                               \<comment> \<open>identity of the next \<^verbatim>\<open>joblib.Memory\<close> object\<close>
  git_client_root :: string                     \<comment> \<open>what \<^verbatim>\<open>git.get_client_root(super_module=True)\<close> returns\<close>
  abspath :: "string \<Rightarrow> string"                 \<comment> \<open>\<^verbatim>\<open>os.path.abspath\<close> in the current directory\<close>
  stores :: "string \<Rightarrow> 'v store_backend"
  heap :: "'v list"
  trace :: "event list"

text \<open>
  A Python function as the cache sees it: its identity, joblib's identifier for it
  (the \<^verbatim>\<open>func_id\<close> digest), its \<^verbatim>\<open>__name__\<close>, what
  \<^verbatim>\<open>get_func_code\<close> reads (source text and first line), the hash of its code
  object, the digest joblib computes for an argument tuple, and what running it returns.
\<close>

record ('a, 'v) py_function =
  fn_oid :: nat
  fn_identifier :: func_id
  fn_name :: string
  fn_source :: string
  fn_first_line :: nat
  fn_code_hash :: nat
  fn_argument_hash :: "'a \<Rightarrow> args_id"
  fn_body :: "'a \<Rightarrow> 'v"

text \<open>A \<^verbatim>\<open>MemorizedFunc\<close>: what \<^verbatim>\<open>Memory.cache(func)\<close> returns.\<close>

record ('a, 'v) memorized_func =
  mf_func :: "('a, 'v) py_function"
  mf_location :: string

record ('a, 'v) cached =
  func :: "('a, 'v) py_function"
  use_mem_cache :: bool
  use_disk_cache :: bool
  set_verbose_mode :: bool
  tag :: "string option"
  last_used_disk_cache :: bool
  last_used_mem_cache :: bool
  disk_cache :: memory
  memory_cache :: memory
  disk_cached_func :: "('a, 'v) memorized_func"
  memory_cached_func :: "('a, 'v) memorized_func"

subsection \<open>Module-level functions\<close>

definition MEMORY_TMPFS_PATH :: string where
  "MEMORY_TMPFS_PATH = ''/mnt/tmpfs''"

definition check_valid_cache_type :: "string \<Rightarrow> error + unit" where
  "check_valid_cache_type cache_type =
     (if cache_type \<in> set [''mem'', ''disk''] then Inr () else Inl AssertionError)"

definition set_caching :: "bool \<Rightarrow> 'v world \<Rightarrow> 'v world" where
  "set_caching val w = w\<lparr>USE_CACHING := val\<rparr>"

definition is_caching_enabled :: "'v world \<Rightarrow> bool" where
  "is_caching_enabled w = USE_CACHING w"

definition get_cache_name :: "string \<Rightarrow> string option \<Rightarrow> error + string" where
  "get_cache_name cache_type tg =
     (case check_valid_cache_type cache_type of
        Inl e \<Rightarrow> Inl e
      | Inr _ \<Rightarrow>
          let cache_name = ''tmp.joblib'';
              cache_name = cache_name @ ''.'' @ cache_type;
              cache_name = (case tg of None \<Rightarrow> cache_name | Some t \<Rightarrow> cache_name @ ''.'' @ t)
          in Inr cache_name)"

text \<open>\<^verbatim>\<open>os.path.join\<close> of two components (POSIX).\<close>

definition os_path_join :: "string \<Rightarrow> string \<Rightarrow> string" where
  "os_path_join a b =
     (if b \<noteq> [] \<and> hd b = CHR ''/'' then b
      else if a = [] \<or> last a = CHR ''/'' then a @ b
      else a @ ''/'' @ b)"

definition get_cache_path :: "string \<Rightarrow> string option \<Rightarrow> 'v world \<Rightarrow> error + string" where
  "get_cache_path cache_type tg w =
     (case check_valid_cache_type cache_type of
        Inl e \<Rightarrow> Inl e
      | Inr _ \<Rightarrow>
          (case get_cache_name cache_type tg of
             Inl e \<Rightarrow> Inl e
           | Inr cache_name \<Rightarrow>
               let root_path = (if cache_type = ''mem'' then MEMORY_TMPFS_PATH
                                else git_client_root w);
                   file_name = os_path_join root_path cache_name;
                   file_name = abspath w file_name
               in Inr file_name))"

definition get_global_cache :: "string \<Rightarrow> 'v world \<Rightarrow> error + memory option" where
  "get_global_cache cache_type w =
     (case check_valid_cache_type cache_type of
        Inl e \<Rightarrow> Inl e
      | Inr _ \<Rightarrow> Inr (if cache_type = ''mem'' then MEMORY_CACHE w else DISK_CACHE w))"

definition set_global_cache :: "string \<Rightarrow> memory \<Rightarrow> 'v world \<Rightarrow> error + 'v world" where
  "set_global_cache cache_type cache w =
     (case check_valid_cache_type cache_type of
        Inl e \<Rightarrow> Inl e
      | Inr _ \<Rightarrow> Inr (if cache_type = ''mem'' then w\<lparr>MEMORY_CACHE := Some cache\<rparr>
                      else w\<lparr>DISK_CACHE := Some cache\<rparr>))"

text \<open>
  \<^verbatim>\<open>joblib.Memory(file_name, verbose=0, compress=1)\<close>: a new object on that
  directory.
\<close>

definition joblib_Memory :: "string \<Rightarrow> 'v world \<Rightarrow> memory \<times> 'v world" where
  "joblib_Memory file_name w =
     (\<lparr>memory_oid = next_oid w, location = file_name\<rparr>, w\<lparr>next_oid := Suc (next_oid w)\<rparr>)"

definition get_cache :: "string \<Rightarrow> string option \<Rightarrow> 'v world \<Rightarrow> error + (memory \<times> 'v world)" where
  "get_cache cache_type tg w =
     (case check_valid_cache_type cache_type of
        Inl e \<Rightarrow> Inl e
      | Inr _ \<Rightarrow>
          (case get_global_cache cache_type w of
             Inl e \<Rightarrow> Inl e
           | Inr global_cache \<Rightarrow>
               (case tg of
                  None \<Rightarrow>
                    (case global_cache of
                       Some cache \<Rightarrow> Inr (cache, w)
                     | None \<Rightarrow>
                         (case get_cache_path cache_type tg w of
                            Inl e \<Rightarrow> Inl e
                          | Inr file_name \<Rightarrow>
                              let (cache, w1) = joblib_Memory file_name w in
                              (case set_global_cache cache_type cache w1 of
                                 Inl e \<Rightarrow> Inl e
                               | Inr w2 \<Rightarrow> Inr (cache, w2))))
                | Some t \<Rightarrow>
                    (case get_cache_path cache_type tg w of
                       Inl e \<Rightarrow> Inl e
                     | Inr file_name \<Rightarrow> Inr (joblib_Memory file_name w)))))"

subsection \<open>joblib, as this module uses it\<close>

text \<open>
  The next definitions are joblib's, not this repository's: the store backend's
  operations and \<^verbatim>\<open>MemorizedFunc\<close> (\<^verbatim>\<open>_get_output_identifiers\<close>,
  \<^verbatim>\<open>_hash_func\<close>, \<^verbatim>\<open>_write_func_code\<close>, \<^verbatim>\<open>clear\<close>,
  \<^verbatim>\<open>_check_previous_func_code\<close>, \<^verbatim>\<open>call\<close>, \<^verbatim>\<open>__call__\<close>),
  in the version whose private names \<^verbatim>\<open>cache.py\<close> calls. Pickling is taken
  to preserve an object's contents, a stored item to load without error, and the wrapped
  function to return a newly built object and to leave the stores alone.
\<close>

definition log_event :: "event \<Rightarrow> 'v world \<Rightarrow> 'v world" where
  "log_event e w = w\<lparr>trace := trace w @ [e]\<rparr>"

definition new_object :: "'v \<Rightarrow> 'v world \<Rightarrow> ref \<times> 'v world" where
  "new_object v w = (length (heap w), w\<lparr>heap := heap w @ [v]\<rparr>)"

definition contains_item :: "string \<Rightarrow> func_id \<times> args_id \<Rightarrow> 'v world \<Rightarrow> bool" where
  "contains_item loc k w = (items (stores w loc) k \<noteq> None)"

definition dump_item :: "string \<Rightarrow> func_id \<times> args_id \<Rightarrow> ref \<Rightarrow> 'v world \<Rightarrow> 'v world" where
  "dump_item loc k obj w =
     (let st = stores w loc;
          st = st\<lparr>items := (items st)(k \<mapsto> heap w ! obj)\<rparr>
      in log_event (DumpItem loc) (w\<lparr>stores := (stores w)(loc := st)\<rparr>))"

definition load_item :: "string \<Rightarrow> 'v \<Rightarrow> 'v world \<Rightarrow> ref \<times> 'v world" where
  "load_item loc v w = new_object v (log_event (LoadItem loc) w)"

definition get_cached_func_code :: "string \<Rightarrow> func_id \<Rightarrow> 'v world \<Rightarrow> error + (string \<times> nat)" where
  "get_cached_func_code loc fid w =
     (case func_codes (stores w loc) fid of None \<Rightarrow> Inl IOError | Some c \<Rightarrow> Inr c)"

definition store_cached_func_code :: "string \<Rightarrow> func_id \<Rightarrow> string \<times> nat \<Rightarrow> 'v world \<Rightarrow> 'v world" where
  "store_cached_func_code loc fid c w =
     (let st = stores w loc;
          st = st\<lparr>func_codes := (func_codes st)(fid \<mapsto> c)\<rparr>
      in w\<lparr>stores := (stores w)(loc := st)\<rparr>)"

definition clear_path :: "string \<Rightarrow> func_id \<Rightarrow> 'v world \<Rightarrow> 'v world" where
  "clear_path loc fid w =
     (let st = stores w loc;
          st = st\<lparr>items := (\<lambda>k. if fst k = fid then None else items st k),
                   func_codes := (func_codes st)(fid := None)\<rparr>
      in w\<lparr>stores := (stores w)(loc := st)\<rparr>)"

definition Memory_cache :: "memory \<Rightarrow> ('a, 'v) py_function \<Rightarrow> ('a, 'v) memorized_func" where
  "Memory_cache m f = \<lparr>mf_func = f, mf_location = location m\<rparr>"

definition get_output_identifiers :: "('a, 'v) memorized_func \<Rightarrow> 'a \<Rightarrow> func_id \<times> args_id" where
  "get_output_identifiers mf args =
     (fn_identifier (mf_func mf), fn_argument_hash (mf_func mf) args)"

definition hash_func :: "('a, 'v) memorized_func \<Rightarrow> nat \<times> nat" where
  "hash_func mf = (fn_oid (mf_func mf), fn_code_hash (mf_func mf))"

definition write_func_code :: "('a, 'v) memorized_func \<Rightarrow> string \<Rightarrow> nat \<Rightarrow> 'v world \<Rightarrow> 'v world" where
  "write_func_code mf func_code first_line w =
     (let func_id = fn_identifier (mf_func mf);
          w1 = store_cached_func_code (mf_location mf) func_id (func_code, first_line) w;
          is_named_callable = (fn_name (mf_func mf) \<noteq> ''<lambda>'')
      in if is_named_callable
         then w1\<lparr>FUNCTION_HASHES := (FUNCTION_HASHES w1)(fn_oid (mf_func mf) \<mapsto> hash_func mf)\<rparr>
         else w1)"

definition mf_clear :: "('a, 'v) memorized_func \<Rightarrow> 'v world \<Rightarrow> 'v world" where
  "mf_clear mf w =
     (let func_id = fn_identifier (mf_func mf);
          w1 = clear_path (mf_location mf) func_id w
      in write_func_code mf (fn_source (mf_func mf)) (fn_first_line (mf_func mf)) w1)"

definition function_hash_is_current :: "('a, 'v) py_function \<Rightarrow> nat \<times> nat \<Rightarrow> 'v world \<Rightarrow> bool" where
  \<comment> \<open>\<^verbatim>\<open>func in _FUNCTION_HASHES and func_hash == _FUNCTION_HASHES[func]\<close>\<close>
  "function_hash_is_current f func_hash w =
     (case FUNCTION_HASHES w (fn_oid f) of None \<Rightarrow> False | Some h \<Rightarrow> func_hash = h)"

definition check_previous_func_code :: "('a, 'v) memorized_func \<Rightarrow> 'v world \<Rightarrow> bool \<times> 'v world" where
  "check_previous_func_code mf w =
     (if function_hash_is_current (mf_func mf) (hash_func mf) w then (True, w)
      else
        let func_code = fn_source (mf_func mf);
            first_line = fn_first_line (mf_func mf);
            func_id = fn_identifier (mf_func mf)
        in (case get_cached_func_code (mf_location mf) func_id w of
              Inl _ \<Rightarrow> (False, write_func_code mf func_code first_line w)
            | Inr (old_func_code, old_first_line) \<Rightarrow>
                if old_func_code = func_code then (True, w)
                else (False, mf_clear mf w)))"

definition run_func :: "('a, 'v) py_function \<Rightarrow> 'a \<Rightarrow> 'v world \<Rightarrow> ref \<times> 'v world" where
  \<comment> \<open>\<^verbatim>\<open>func(*args, **kwargs)\<close>\<close>
  "run_func f args w = new_object (fn_body f args) (log_event CallFunc w)"

definition mf_call :: "('a, 'v) memorized_func \<Rightarrow> 'a \<Rightarrow> 'v world \<Rightarrow> ref \<times> 'v world" where
  \<comment> \<open>\<^verbatim>\<open>MemorizedFunc.call\<close>: run the function and persist the output\<close>
  "mf_call mf args w =
     (let (func_id, args_id) = get_output_identifiers mf args;
          (output, w1) = run_func (mf_func mf) args w
      in (output, dump_item (mf_location mf) (func_id, args_id) output w1))"

definition mf_cached_call :: "('a, 'v) memorized_func \<Rightarrow> 'a \<Rightarrow> 'v world \<Rightarrow> ref \<times> 'v world" where
  \<comment> \<open>\<^verbatim>\<open>MemorizedFunc.__call__\<close>\<close>
  "mf_cached_call mf args w =
     (let (func_id, args_id) = get_output_identifiers mf args;
          (code_ok, w1) = check_previous_func_code mf w
      in if \<not> (code_ok \<and> contains_item (mf_location mf) (func_id, args_id) w1)
         then mf_call mf args w1
         else (case items (stores w1 (mf_location mf)) (func_id, args_id) of
                 None \<Rightarrow> mf_call mf args w1
               | Some v \<Rightarrow> load_item (mf_location mf) v w1))"

definition deepcopy :: "ref \<Rightarrow> 'v world \<Rightarrow> ref \<times> 'v world" where
  \<comment> \<open>\<^verbatim>\<open>copy.deepcopy\<close>: a new object with the same contents\<close>
  "deepcopy obj w = new_object (heap w ! obj) (log_event Deepcopy w)"

subsection \<open>The class \<^verbatim>\<open>Cached\<close>\<close>

definition reset_cache_tracing :: "('a, 'v) cached \<Rightarrow> ('a, 'v) cached" where
  "reset_cache_tracing c =
     c\<lparr>last_used_disk_cache := use_disk_cache c, last_used_mem_cache := use_mem_cache c\<rparr>"

definition Cached_init ::
  "('a, 'v) py_function \<Rightarrow> bool \<Rightarrow> bool \<Rightarrow> bool \<Rightarrow> string option \<Rightarrow> 'v world
     \<Rightarrow> error + (('a, 'v) cached \<times> 'v world)" where
  "Cached_init f use_mem use_disk verbose tg w =
     (case get_cache ''disk'' tg w of
        Inl e \<Rightarrow> Inl e
      | Inr (dc, w1) \<Rightarrow>
          (case get_cache ''mem'' tg w1 of
             Inl e \<Rightarrow> Inl e
           | Inr (mc, w2) \<Rightarrow>
               Inr (\<lparr>func = f, use_mem_cache = use_mem, use_disk_cache = use_disk,
                     set_verbose_mode = verbose, tag = tg,
                     last_used_disk_cache = use_disk, last_used_mem_cache = use_mem,
                     disk_cache = dc, memory_cache = mc,
                     disk_cached_func = Memory_cache dc f,
                     memory_cached_func = Memory_cache mc f\<rparr>, w2)))"

definition get_last_cache_accessed :: "('a, 'v) cached \<Rightarrow> string" where
  "get_last_cache_accessed c =
     (if last_used_mem_cache c then ''mem''
      else if last_used_disk_cache c then ''disk''
      else ''no_cache'')"

definition Cached_get_cache :: "('a, 'v) cached \<Rightarrow> string \<Rightarrow> error + ('a, 'v) memorized_func" where
  "Cached_get_cache c cache_type =
     (if cache_type = ''mem'' then Inr (memory_cached_func c)
      else if cache_type = ''disk'' then Inr (disk_cached_func c)
      else Inl AssertionError)"

definition get_identifiers :: "('a, 'v) cached \<Rightarrow> string \<Rightarrow> 'a \<Rightarrow> error + (func_id \<times> args_id)" where
  "get_identifiers c cache_type args =
     (case Cached_get_cache c cache_type of
        Inl e \<Rightarrow> Inl e
      | Inr cache \<Rightarrow> Inr (get_output_identifiers cache args))"

definition has_cached_version ::
  "('a, 'v) cached \<Rightarrow> string \<Rightarrow> func_id \<Rightarrow> args_id \<Rightarrow> 'v world \<Rightarrow> error + bool" where
  "has_cached_version c cache_type func_id args_id w =
     (case Cached_get_cache c cache_type of
        Inl e \<Rightarrow> Inl e
      | Inr cache \<Rightarrow>
          let has_cached_version = contains_item (mf_location cache) (func_id, args_id) w in
          if has_cached_version then
            (if function_hash_is_current (func c) (hash_func cache) w then Inr True
             else
               let func_code = fn_source (func c) in
               (case get_cached_func_code (mf_location cache) func_id w of
                  Inl e \<Rightarrow> Inl e
                | Inr (old_func_code, _) \<Rightarrow>
                    if func_code = old_func_code then Inr True else Inr False))
          else Inr False)"

definition store_cached_version ::
  "('a, 'v) cached \<Rightarrow> string \<Rightarrow> func_id \<Rightarrow> args_id \<Rightarrow> ref \<Rightarrow> 'v world \<Rightarrow> error + 'v world" where
  "store_cached_version c cache_type func_id args_id obj w =
     (case Cached_get_cache c cache_type of
        Inl e \<Rightarrow> Inl e
      | Inr cache \<Rightarrow>
          let func_code = fn_source (mf_func cache);
              first_line = fn_first_line (mf_func cache);
              w1 = write_func_code cache func_code first_line w
          in Inr (dump_item (mf_location cache) (func_id, args_id) obj w1))"

definition execute_func_from_disk_cache ::
  "('a, 'v) cached \<Rightarrow> 'a \<Rightarrow> 'v world \<Rightarrow> error + (ref \<times> ('a, 'v) cached \<times> 'v world)" where
  "execute_func_from_disk_cache c args w =
     (case get_identifiers c ''disk'' args of
        Inl e \<Rightarrow> Inl e
      | Inr (func_id, args_id) \<Rightarrow>
          (case has_cached_version c ''disk'' func_id args_id w of
             Inl e \<Rightarrow> Inl e
           | Inr hit \<Rightarrow>
               let w0 = log_event (Lookup ''disk'') w;
                   c1 = (if \<not> hit then c\<lparr>last_used_disk_cache := False\<rparr> else c);
                   (obj, w1) = mf_cached_call (disk_cached_func c1) args w0
               in Inr (obj, c1, w1)))"

definition execute_func_from_mem_cache ::
  "('a, 'v) cached \<Rightarrow> 'a \<Rightarrow> 'v world \<Rightarrow> error + (ref \<times> ('a, 'v) cached \<times> 'v world)" where
  "execute_func_from_mem_cache c args w =
     (case get_identifiers c ''mem'' args of
        Inl e \<Rightarrow> Inl e
      | Inr (func_id, args_id) \<Rightarrow>
          (case has_cached_version c ''mem'' func_id args_id w of
             Inl e \<Rightarrow> Inl e
           | Inr hit \<Rightarrow>
               let w0 = log_event (Lookup ''mem'') w in
               if hit then
                 (let (obj, w1) = mf_cached_call (memory_cached_func c) args w0
                  in Inr (obj, c, w1))
               else
                 (let c1 = c\<lparr>last_used_mem_cache := False\<rparr> in
                  (case (if use_disk_cache c1
                         then execute_func_from_disk_cache c1 args w0
                         else (let (obj, w1) = mf_cached_call (memory_cached_func c1) args w0
                               in Inr (obj, c1, w1))) of
                     Inl e \<Rightarrow> Inl e
                   | Inr (obj, c2, w2) \<Rightarrow>
                       (case store_cached_version c2 ''mem'' func_id args_id obj w2 of
                          Inl e \<Rightarrow> Inl e
                        | Inr w3 \<Rightarrow> Inr (obj, c2, w3))))))"

definition execute_func ::
  "('a, 'v) cached \<Rightarrow> 'a \<Rightarrow> 'v world \<Rightarrow> error + (ref \<times> ('a, 'v) cached \<times> 'v world)" where
  "execute_func c args w =
     (if use_mem_cache c then execute_func_from_mem_cache c args w
      else if use_disk_cache c then execute_func_from_disk_cache c args w
      else (let (obj, w1) = run_func (func c) args w in Inr (obj, c, w1)))"

definition Cached_call ::
  "('a, 'v) cached \<Rightarrow> 'a \<Rightarrow> 'v world \<Rightarrow> error + (ref \<times> ('a, 'v) cached \<times> 'v world)" where
  \<comment> \<open>\<^verbatim>\<open>Cached.__call__\<close>\<close>
  "Cached_call c args w =
     (if \<not> is_caching_enabled w then
        let c1 = c\<lparr>last_used_disk_cache := False, last_used_mem_cache := False\<rparr>;
            (obj, w1) = run_func (func c1) args w
        in Inr (obj, c1, w1)
      else
        let c1 = reset_cache_tracing c in
        (case execute_func c1 args w of
           Inl e \<Rightarrow> Inl e
         | Inr (obj, c2, w2) \<Rightarrow>
             let (obj', w3) = deepcopy obj w2 in Inr (obj', c2, w3)))"

subsection \<open>Notions the theorems speak of\<close>

text \<open>
  What \<^verbatim>\<open>__init__\<close> establishes about a \<^verbatim>\<open>Cached\<close> object and no method
  changes: both \<^verbatim>\<open>MemorizedFunc\<close> objects wrap \<^verbatim>\<open>self._func\<close>, each on the
  directory of its \<^verbatim>\<open>joblib.Memory\<close>.
\<close>

definition cached_inv :: "('a, 'v) cached \<Rightarrow> bool" where
  "cached_inv c =
     (mf_func (disk_cached_func c) = func c \<and> mf_func (memory_cached_func c) = func c
      \<and> mf_location (disk_cached_func c) = location (disk_cache c)
      \<and> mf_location (memory_cached_func c) = location (memory_cache c))"

text \<open>
  The function's code is current for a store: joblib's table holds the function's present
  hash, or the source text stored in that directory is the function's present source.
\<close>

definition code_is_current :: "('a, 'v) memorized_func \<Rightarrow> 'v world \<Rightarrow> bool" where
  "code_is_current mf w =
     (function_hash_is_current (mf_func mf) (hash_func mf) w
      \<or> (case func_codes (stores w (mf_location mf)) (fn_identifier (mf_func mf)) of
            None \<Rightarrow> False
          | Some (old_func_code, _) \<Rightarrow> old_func_code = fn_source (mf_func mf)))"

text \<open>The stored output for a call's digests, if there is one.\<close>

definition entry_of :: "('a, 'v) memorized_func \<Rightarrow> 'a \<Rightarrow> 'v world \<Rightarrow> 'v option" where
  "entry_of mf args w = items (stores w (mf_location mf)) (get_output_identifiers mf args)"

text \<open>
  What a \<^verbatim>\<open>Cached\<close> object would answer from its first cache level in use without
  running anything: a valid entry with contents \<open>v\<close> there; with no level in use, what the
  function itself computes.
\<close>

definition remembers :: "('a, 'v) cached \<Rightarrow> 'a \<Rightarrow> 'v world \<Rightarrow> 'v \<Rightarrow> bool" where
  "remembers c args w v =
     (if use_mem_cache c
      then entry_of (memory_cached_func c) args w = Some v \<and> code_is_current (memory_cached_func c) w
      else if use_disk_cache c
      then entry_of (disk_cached_func c) args w = Some v \<and> code_is_current (disk_cached_func c) w
      else v = fn_body (func c) args)"

text \<open>Two \<^verbatim>\<open>Cached\<close> records that are one object at two moments: all but the tracing flags agree.\<close>

definition same_object :: "('a, 'v) cached \<Rightarrow> ('a, 'v) cached \<Rightarrow> bool" where
  "same_object c' c =
     (func c' = func c \<and> use_mem_cache c' = use_mem_cache c \<and> use_disk_cache c' = use_disk_cache c
      \<and> set_verbose_mode c' = set_verbose_mode c \<and> tag c' = tag c
      \<and> disk_cache c' = disk_cache c \<and> memory_cache c' = memory_cache c
      \<and> disk_cached_func c' = disk_cached_func c
      \<and> memory_cached_func c' = memory_cached_func c)"

text \<open>The caller assigns new contents to an object it holds.\<close>

definition mutate :: "ref \<Rightarrow> 'v \<Rightarrow> 'v world \<Rightarrow> 'v world" where
  "mutate obj x w = w\<lparr>heap := (heap w)[obj := x]\<rparr>"

section \<open>The downloader scripts\<close>

text \<open>
  Both scripts talk to the outside: an exchange, an HTTP endpoint, the file system, a
  shell. Each such call is an action appended to a log, in the order the script makes
  them; what the outside answers is a parameter of the model (a record of functions), and
  an answer can be an exception, which ends the run with the log as it stands.
\<close>

subsection \<open>Strings\<close>

text \<open>
  \<^verbatim>\<open>str.split()\<close> without arguments: the maximal runs of characters that are not
  whitespace (for code points below 256: \<^verbatim>\<open>\t \n \x0b \x0c \r \x1c \x1d \x1e \x1f\<close>, the
  space, \<^verbatim>\<open>\x85\<close> and \<^verbatim>\<open>\xa0\<close>).
\<close>

definition isspace :: "char \<Rightarrow> bool" where
  "isspace ch = (of_char ch \<in> set [9, 10, 11, 12, 13, 28, 29, 30, 31, 32, 133, 160 :: nat])"

fun split_from :: "string \<Rightarrow> string \<Rightarrow> string list" where
  "split_from cur [] = (if cur = [] then [] else [rev cur])"
| "split_from cur (ch # cs) =
     (if isspace ch then (if cur = [] then split_from [] cs else rev cur # split_from [] cs)
      else split_from (ch # cur) cs)"

definition str_split :: "string \<Rightarrow> string list" where
  "str_split s = split_from [] s"

definition str_replace_char :: "char \<Rightarrow> char \<Rightarrow> string \<Rightarrow> string" where
  \<comment> \<open>\<^verbatim>\<open>s.replace(old, new)\<close> for one-character \<^verbatim>\<open>old\<close> and \<^verbatim>\<open>new\<close>\<close>
  "str_replace_char old new s = map (\<lambda>ch. if ch = old then new else ch) s"

subsection \<open>\<^verbatim>\<open>im/ccxt/data/extract/download_historical.py\<close>\<close>

datatype ('t, 'd) ccxt_action =
  CreateDir string bool                      \<comment> \<open>\<^verbatim>\<open>hio.create_dir(dir, incremental=...)\<close>\<close>
  | MakeExchange string string               \<comment> \<open>\<^verbatim>\<open>CcxtExchange(exchange_id, api_keys_path=...)\<close>\<close>
  | DownloadOhlcv string string 't 't "int option"
      \<comment> \<open>\<^verbatim>\<open>exchange.download_ohlcv_data\<close> on exchange, pair, start, end, step\<close>
  | Sleep int                                \<comment> \<open>\<^verbatim>\<open>time.sleep\<close>\<close>
  | ToCsv string 'd                          \<comment> \<open>\<^verbatim>\<open>pair_data.to_csv(full_path, ...)\<close>\<close>

record hist_args =
  dst_dir :: string
  api_keys :: string
  exchange_ids :: string
  currency_pairs :: string
  start_datetime :: string
  end_datetime :: "string option"
  step :: "int option"
  sleep_time :: int
  incremental :: bool

text \<open>
  What the script does not contain: \<^verbatim>\<open>pd.Timestamp\<close>, and the class
  \<^verbatim>\<open>CcxtExchange\<close> of \<^verbatim>\<open>im/ccxt/data/extract/exchange_class.py\<close> (building an
  exchange object gives its \<^verbatim>\<open>currency_pairs\<close>; \<^verbatim>\<open>download_ohlcv_data\<close>
  gives a dataframe).
\<close>

record ('t, 'd) ccxt_env =
  pd_Timestamp :: "string \<Rightarrow> error + 't"
  pd_Timestamp_now :: 't
  CcxtExchange :: "string \<Rightarrow> string \<Rightarrow> error + string list"
  download_ohlcv_data :: "string \<Rightarrow> string \<Rightarrow> 't \<Rightarrow> 't \<Rightarrow> int option \<Rightarrow> error + 'd"

definition ALL_EXCHANGE_IDS :: "string list" where
  "ALL_EXCHANGE_IDS = [''binance'', ''kucoin'']"

definition csv_file_name :: "string \<Rightarrow> string \<Rightarrow> string" where
  \<comment> \<open>\<^verbatim>\<open>f"{exchange_id}_{pair.replace('/', '_')}.csv.gz"\<close>\<close>
  "csv_file_name exchange_id pair =
     exchange_id @ ''_'' @ str_replace_char (CHR ''/'') (CHR ''_'') pair @ ''.csv.gz''"

text \<open>The inner loop, \<^verbatim>\<open>for pair in present_pairs\<close>.\<close>

fun download_pairs ::
  "('t, 'd) ccxt_env \<Rightarrow> hist_args \<Rightarrow> string \<Rightarrow> 't \<Rightarrow> 't \<Rightarrow> string list
     \<Rightarrow> ('t, 'd) ccxt_action list \<Rightarrow> ('t, 'd) ccxt_action list \<times> (error + unit)" where
  "download_pairs env args exchange_id start_ts end_ts [] log = (log, Inr ())"
| "download_pairs env args exchange_id start_ts end_ts (pair # pairs) log =
     (let log1 = log @ [DownloadOhlcv exchange_id pair start_ts end_ts (step args)] in
      case download_ohlcv_data env exchange_id pair start_ts end_ts (step args) of
        Inl e \<Rightarrow> (log1, Inl e)
      | Inr pair_data \<Rightarrow>
          let log2 = log1 @ [Sleep (sleep_time args)];
              file_name = csv_file_name exchange_id pair;
              full_path = os_path_join (dst_dir args) file_name;
              log3 = log2 @ [ToCsv full_path pair_data]
          in download_pairs env args exchange_id start_ts end_ts pairs log3)"

definition present_pairs :: "hist_args \<Rightarrow> string list \<Rightarrow> string list" where
  "present_pairs args exchange_currency_pairs =
     (if currency_pairs args = ''all'' then exchange_currency_pairs
      else [curr \<leftarrow> str_split (currency_pairs args). curr \<in> set exchange_currency_pairs])"

text \<open>The outer loop, \<^verbatim>\<open>for exchange_id in exchange_ids\<close>.\<close>

fun download_exchanges ::
  "('t, 'd) ccxt_env \<Rightarrow> hist_args \<Rightarrow> 't \<Rightarrow> 't \<Rightarrow> string list
     \<Rightarrow> ('t, 'd) ccxt_action list \<Rightarrow> ('t, 'd) ccxt_action list \<times> (error + unit)" where
  "download_exchanges env args start_ts end_ts [] log = (log, Inr ())"
| "download_exchanges env args start_ts end_ts (exchange_id # ids) log =
     (let log1 = log @ [MakeExchange exchange_id (api_keys args)] in
      case CcxtExchange env exchange_id (api_keys args) of
        Inl e \<Rightarrow> (log1, Inl e)
      | Inr exchange_currency_pairs \<Rightarrow>
          (case download_pairs env args exchange_id start_ts end_ts
                  (present_pairs args exchange_currency_pairs) log1 of
             (log2, Inl e) \<Rightarrow> (log2, Inl e)
           | (log2, Inr _) \<Rightarrow> download_exchanges env args start_ts end_ts ids log2))"

definition download_historical_main ::
  "('t, 'd) ccxt_env \<Rightarrow> hist_args \<Rightarrow> ('t, 'd) ccxt_action list \<times> (error + unit)" where
  "download_historical_main env args =
     (let log0 = [CreateDir (dst_dir args) (incremental args)] in
      case pd_Timestamp env (start_datetime args) of
        Inl e \<Rightarrow> (log0, Inl e)
      | Inr start_ts \<Rightarrow>
          (case (if end_datetime args = None \<or> end_datetime args = Some []
                 then Inr (pd_Timestamp_now env)
                 else pd_Timestamp env (the (end_datetime args))) of
             Inl e \<Rightarrow> (log0, Inl e)
           | Inr end_ts \<Rightarrow>
               let ids = (if exchange_ids args = ''all'' then ALL_EXCHANGE_IDS
                          else str_split (exchange_ids args))
               in download_exchanges env args start_ts end_ts ids log0))"

subsection \<open>\<^verbatim>\<open>vendors2/kibot/metadata/extract/download_adjustments.py\<close>\<close>

datatype kibot_action =
  KCreateDir string bool                      \<comment> \<open>\<^verbatim>\<open>io_.create_dir\<close>\<close>
  | HttpGet string "(string \<times> string) list"   \<comment> \<open>\<^verbatim>\<open>requests.get(url=..., params=...)\<close>\<close>
  | ToFile string string                      \<comment> \<open>\<^verbatim>\<open>io_.to_file(file_name=..., lines=...)\<close>\<close>
  | System string                             \<comment> \<open>\<^verbatim>\<open>si.system(cmd)\<close>\<close>

record adj_args =
  username :: string
  password :: string
  start_date :: string
  tmp_dir :: string
  no_incremental :: bool

text \<open>
  Of a response the script reads \<^verbatim>\<open>text\<close> and \<^verbatim>\<open>content\<close> (decoded as UTF-8).
  Not in the script: the constants of \<^verbatim>\<open>vendors2.kibot.data.config\<close>, the endpoint's
  answers, Python's \<^verbatim>\<open>int\<close> on a token, \<^verbatim>\<open>hs3.check_valid_s3_path\<close> and the shell.
\<close>

record response =
  response_text :: string
  response_content :: string

record kibot_env =
  API_ENDPOINT :: string
  config_S3_PREFIX :: string
  requests_get :: "string \<Rightarrow> (string \<times> string) list \<Rightarrow> error + response"
  py_int :: "string \<Rightarrow> error + int"
  check_valid_s3_path :: "string \<Rightarrow> error + unit"
  si_system :: "string \<Rightarrow> error + unit"

definition SUB_DIR :: string where
  "SUB_DIR = os_path_join (os_path_join ''metadata'' ''raw'') ''adjustments''"

definition S3_PREFIX :: "kibot_env \<Rightarrow> string" where
  "S3_PREFIX env = os_path_join (config_S3_PREFIX env) SUB_DIR"

definition login_params :: "adj_args \<Rightarrow> (string \<times> string) list" where
  "login_params args =
     [(''action'', ''login''), (''user'', username args), (''password'', password args)]"

definition adjustments_params :: "adj_args \<Rightarrow> (string \<times> string) list" where
  "adjustments_params args =
     [(''action'', ''adjustments''), (''symbol'', ''allsymbols''), (''startdate'', start_date args)]"

definition download_adjustments_main ::
  "kibot_env \<Rightarrow> adj_args \<Rightarrow> kibot_action list \<times> (error + int)" where
  "download_adjustments_main env args =
     (let incremental = \<not> no_incremental args;
          log0 = [KCreateDir (tmp_dir args) incremental];
          log1 = log0 @ [HttpGet (API_ENDPOINT env) (login_params args)]
      in case requests_get env (API_ENDPOINT env) (login_params args) of
        Inl e \<Rightarrow> (log1, Inl e)
      | Inr response \<Rightarrow>
          (case str_split (response_text response) of
             [] \<Rightarrow> (log1, Inl IndexError)
           | token # _ \<Rightarrow>
               (case py_int env token of
                  Inl e \<Rightarrow> (log1, Inl e)
                | Inr status_code \<Rightarrow>
                    let accepted_status_codes = [200, 407] in
                    if status_code \<notin> set accepted_status_codes then (log1, Inl AssertionError)
                    else
                      let log2 = log1 @ [HttpGet (API_ENDPOINT env) (adjustments_params args)] in
                      (case requests_get env (API_ENDPOINT env) (adjustments_params args) of
                         Inl e \<Rightarrow> (log2, Inl e)
                       | Inr response \<Rightarrow>
                           let file_name = ''downloads_'' @ start_date args @ ''.txt'';
                               file_path = os_path_join (os_path_join (tmp_dir args) SUB_DIR) file_name;
                               log3 = log2 @ [ToFile file_path (response_content response)];
                               aws_path = os_path_join (S3_PREFIX env) file_name
                           in (case check_valid_s3_path env aws_path of
                                 Inl e \<Rightarrow> (log3, Inl e)
                               | Inr _ \<Rightarrow>
                                   let cmd = ''aws s3 cp '' @ file_path @ '' '' @ aws_path;
                                       log4 = log3 @ [System cmd]
                                   in (case si_system env cmd of
                                         Inl e \<Rightarrow> (log4, Inl e)
                                       | Inr _ \<Rightarrow> (log4, Inr 0)))))))"

subsection \<open>Reading a log\<close>

text \<open>The download calls of a log, by exchange and pair, and the files written, in order.\<close>

fun download_calls :: "('t, 'd) ccxt_action list \<Rightarrow> (string \<times> string) list" where
  "download_calls [] = []"
| "download_calls (DownloadOhlcv exchange_id pair _ _ _ # log) = (exchange_id, pair) # download_calls log"
| "download_calls (_ # log) = download_calls log"

fun csv_files :: "('t, 'd) ccxt_action list \<Rightarrow> (string \<times> 'd) list" where
  "csv_files [] = []"
| "csv_files (ToCsv full_path pair_data # log) = (full_path, pair_data) # csv_files log"
| "csv_files (_ # log) = csv_files log"

text \<open>A call of the log that the outside answers with an exception.\<close>

fun fails :: "('t, 'd) ccxt_env \<Rightarrow> ('t, 'd) ccxt_action \<Rightarrow> bool" where
  "fails env (MakeExchange exchange_id keys) = isl (CcxtExchange env exchange_id keys)"
| "fails env (DownloadOhlcv exchange_id pair start_ts end_ts stp) =
     isl (download_ohlcv_data env exchange_id pair start_ts end_ts stp)"
| "fails env _ = False"

text \<open>
  The (exchange, pair) combinations the two loops range over: for each exchange id in
  turn, the pairs present in that exchange (none for an exchange that cannot be built).
\<close>

definition planned :: "('t, 'd) ccxt_env \<Rightarrow> hist_args \<Rightarrow> string list \<Rightarrow> (string \<times> string) list" where
  "planned env args ids =
     concat (map (\<lambda>exchange_id.
        case CcxtExchange env exchange_id (api_keys args) of
          Inl _ \<Rightarrow> []
        | Inr exchange_currency_pairs \<Rightarrow>
            map (Pair exchange_id) (present_pairs args exchange_currency_pairs)) ids)"

definition selected_exchange_ids :: "hist_args \<Rightarrow> string list" where
  "selected_exchange_ids args =
     (if exchange_ids args = ''all'' then ALL_EXCHANGE_IDS else str_split (exchange_ids args))"

text \<open>The HTTP requests of a log, in order, and the status code the login request yields.\<close>

fun http_gets :: "kibot_action list \<Rightarrow> (string \<times> (string \<times> string) list) list" where
  "http_gets [] = []"
| "http_gets (HttpGet url params # log) = (url, params) # http_gets log"
| "http_gets (_ # log) = http_gets log"

definition login_status_code :: "kibot_env \<Rightarrow> adj_args \<Rightarrow> error + int" where
  "login_status_code env args =
     (case requests_get env (API_ENDPOINT env) (login_params args) of
        Inl e \<Rightarrow> Inl e
      | Inr response \<Rightarrow>
          (case str_split (response_text response) of
             [] \<Rightarrow> Inl IndexError
           | token # _ \<Rightarrow> py_int env token))"

text \<open>
  A file of the log belongs to a download call: it is the dataframe that call returned,
  written under the name built from the exchange and the pair, joined to the destination
  directory.
\<close>

definition written_for ::
  "('t, 'd) ccxt_env \<Rightarrow> hist_args \<Rightarrow> 't \<Rightarrow> 't \<Rightarrow> string \<times> string \<Rightarrow> string \<times> 'd \<Rightarrow> bool" where
  "written_for env args start_ts end_ts call file =
     (fst file = os_path_join (dst_dir args) (csv_file_name (fst call) (snd call))
      \<and> download_ohlcv_data env (fst call) (snd call) start_ts end_ts (step args) = Inr (snd file))"

section \<open>\<^verbatim>\<open>dev_scripts/notebooks/publish_notebook.py\<close>\<close>

text \<open>
  The script's calls to the outside are again a log: shell commands through
  \<^verbatim>\<open>si.system\<close>, directories created, files opened in the browser, the upload
  through the S3 file system object, and \<^verbatim>\<open>sys.exit\<close>. Logging and printing are
  left out; \<^verbatim>\<open>_post_to_webserver\<close> is never reached (see \<open>publish_notebook_main\<close>).
\<close>

subsection \<open>Paths and strings\<close>

definition startswith :: "string \<Rightarrow> string \<Rightarrow> bool" where
  "startswith s pre = (take (length pre) s = pre)"

definition endswith :: "string \<Rightarrow> string \<Rightarrow> bool" where
  "endswith s suf = (length suf \<le> length s \<and> drop (length s - length suf) s = suf)"

fun str_contains :: "string \<Rightarrow> string \<Rightarrow> bool" where
  \<comment> \<open>\<^verbatim>\<open>sub in s\<close>\<close>
  "str_contains sub [] = (sub = [])"
| "str_contains sub (ch # cs) = (startswith (ch # cs) sub \<or> str_contains sub cs)"

fun split_on :: "char \<Rightarrow> string \<Rightarrow> string list" where
  \<comment> \<open>\<^verbatim>\<open>s.split(sep)\<close> for a one-character separator: empty pieces are kept\<close>
  "split_on sep [] = [[]]"
| "split_on sep (ch # cs) =
     (if ch = sep then [] # split_on sep cs
      else (case split_on sep cs of [] \<Rightarrow> [[ch]] | piece # pieces \<Rightarrow> (ch # piece) # pieces))"

fun join_with :: "string \<Rightarrow> string list \<Rightarrow> string" where
  \<comment> \<open>\<^verbatim>\<open>sep.join(pieces)\<close>\<close>
  "join_with sep [] = []"
| "join_with sep [piece] = piece"
| "join_with sep (piece # pieces) = piece @ sep @ join_with sep pieces"

definition os_path_basename :: "string \<Rightarrow> string" where
  "os_path_basename p = last (split_on (CHR ''/'') p)"

definition os_path_dirname :: "string \<Rightarrow> string" where
  "os_path_dirname p =
     (let hd_part = take (length p - length (os_path_basename p)) p
      in if hd_part \<noteq> [] \<and> \<not> (\<forall>ch \<in> set hd_part. ch = CHR ''/'')
         then rev (dropWhile (\<lambda>ch. ch = CHR ''/'') (rev hd_part))
         else hd_part)"

text \<open>
  \<^verbatim>\<open>os.path.splitext\<close>: the extension starts at the last dot of the last component,
  unless only dots precede it there.
\<close>

definition os_path_splitext :: "string \<Rightarrow> string \<times> string" where
  "os_path_splitext p =
     (let base = os_path_basename p;
          ext = rev (takeWhile (\<lambda>ch. ch \<noteq> CHR ''.'') (rev base));
          stem = take (length base - length ext - 1) base
      in if CHR ''.'' \<in> set base \<and> \<not> (\<forall>ch \<in> set stem. ch = CHR ''.'')
         then (take (length p - length ext - 1) p, CHR ''.'' # ext)
         else (p, []))"

subsection \<open>The outside\<close>

datatype nb_action =
  NbSystem string                 \<comment> \<open>\<^verbatim>\<open>si.system(cmd)\<close>: an external command\<close>
  | NbCreateDir string bool       \<comment> \<open>\<^verbatim>\<open>hio.create_dir(dir, incremental=...)\<close>\<close>
  | OpenFile string               \<comment> \<open>\<^verbatim>\<open>opn.open_file(file_name)\<close>\<close>
  | S3fsPut string string string  \<comment> \<open>\<^verbatim>\<open>hs3.get_s3fs(aws_profile).put(local, remote)\<close>, in this process\<close>
  | SysExit int                   \<comment> \<open>\<^verbatim>\<open>sys.exit(code)\<close>\<close>

text \<open>
  \<^verbatim>\<open>args.action\<close> is \<^verbatim>\<open>None\<close> here when the option is not given: its default is
  the list \<^verbatim>\<open>["convert"]\<close>, which equals none of the strings it is compared with.
\<close>

record nb_args =
  arg_file :: string
  arg_branch :: "string option"
  arg_publish_notebook_dir :: "string option"
  arg_tag :: string
  arg_s3_path :: "string option"
  arg_aws_profile :: "string option"
  arg_action :: "string option"

text \<open>
  The file system's answers are taken at the point of the script where each is asked
  (each is asked at one point of a run).
\<close>

record nb_env =
  os_path_exists :: "string \<Rightarrow> bool"
  os_path_isfile :: "string \<Rightarrow> bool"
  os_path_isdir :: "string \<Rightarrow> bool"
  os_path_realpath :: "string \<Rightarrow> string"
  gettempdir :: string
  now_strftime :: string           \<comment> \<open>\<^verbatim>\<open>datetime.datetime.now().strftime("%Y%m%d_%H%M%S")\<close>\<close>
  os_environ :: "string \<rightharpoonup> string"
  nb_system :: "string \<Rightarrow> error + unit"
  s3fs_put :: "string \<Rightarrow> string \<Rightarrow> string \<Rightarrow> error + unit"

subsection \<open>The functions\<close>

definition get_path :: "nb_env \<Rightarrow> string \<Rightarrow> error + string" where
  "get_path env path_or_url =
     (if str_contains ''https://github'' path_or_url
      then Inr (join_with ''/'' (drop 7 (split_on (CHR ''/'') path_or_url)))
      else if str_contains ''http://'' path_or_url
      then (let ret = join_with ''/'' (drop 4 (split_on (CHR ''/'') path_or_url))
            in if os_path_exists env ret then Inr ret else Inl AssertionError)
      else if endswith path_or_url ''.ipynb'' \<and> os_path_exists env path_or_url
      then Inr path_or_url
      else Inl ValueError)"

definition get_file_from_git_branch ::
  "nb_env \<Rightarrow> string \<Rightarrow> string \<Rightarrow> nb_action list \<Rightarrow> nb_action list \<times> (error + string)" where
  "get_file_from_git_branch env git_branch git_path log =
     (let dst_file_name = os_path_join (gettempdir env) (os_path_basename git_path);
          cmd = ''git show '' @ git_branch @ '':'' @ git_path @ '' > '' @ dst_file_name;
          log1 = log @ [NbSystem cmd]
      in case nb_system env cmd of
           Inl e \<Rightarrow> (log1, Inl e)
         | Inr _ \<Rightarrow> (log1, Inr dst_file_name))"

definition add_tag :: "nb_env \<Rightarrow> string \<Rightarrow> string \<Rightarrow> string" where
  "add_tag env file_name tg =
     (let (name, extension) = os_path_splitext (os_path_basename file_name);
          tg = (if tg \<noteq> [] then ''.'' @ tg else tg);
          tg = tg @ ''.'' @ now_strftime env
      in name @ tg @ extension)"

definition mv_cmd :: "string \<Rightarrow> string \<Rightarrow> string" where
  \<comment> \<open>\<^verbatim>\<open>f"mv {html_src_path} {html_dst_path}"\<close>\<close>
  "mv_cmd html_src_path html_dst_path = ''mv '' @ html_src_path @ '' '' @ html_dst_path"

definition nbconvert_cmd :: "string \<Rightarrow> string \<Rightarrow> string" where
  \<comment> \<open>\<^verbatim>\<open>f"jupyter nbconvert {ipynb_file_name} --to html --output {dst_file_name}"\<close>\<close>
  "nbconvert_cmd ipynb_file_name dst_file_name =
     ''jupyter nbconvert '' @ ipynb_file_name @ '' --to html --output '' @ dst_file_name"

definition html_dst_file_name :: "nb_env \<Rightarrow> string \<Rightarrow> string \<Rightarrow> string" where
  \<comment> \<open>the destination \<^verbatim>\<open>_export_notebook_to_html\<close> computes before it runs the command\<close>
  "html_dst_file_name env ipynb_file_name tg =
     (let dir_path = os_path_dirname (os_path_realpath env ipynb_file_name);
          file_name = fst (os_path_splitext (os_path_basename ipynb_file_name));
          html_file_name = file_name @ ''.html'';
          html_file_name = add_tag env html_file_name tg
      in os_path_join dir_path html_file_name)"

definition export_notebook_to_html ::
  "nb_env \<Rightarrow> string \<Rightarrow> string \<Rightarrow> nb_action list \<Rightarrow> nb_action list \<times> (error + string)" where
  "export_notebook_to_html env ipynb_file_name tg log =
     (let dst_file_name = html_dst_file_name env ipynb_file_name tg;
          cmd = nbconvert_cmd ipynb_file_name dst_file_name;
          log1 = log @ [NbSystem cmd]
      in case nb_system env cmd of
           Inl e \<Rightarrow> (log1, Inl e)
         | Inr _ \<Rightarrow> (log1, Inr dst_file_name))"

definition export_notebook_to_dir ::
  "nb_env \<Rightarrow> string \<Rightarrow> string \<Rightarrow> string \<Rightarrow> nb_action list \<Rightarrow> nb_action list \<times> (error + string)" where
  "export_notebook_to_dir env ipynb_file_name tg dst_directory log =
     (case export_notebook_to_html env ipynb_file_name tg log of
        (log1, Inl e) \<Rightarrow> (log1, Inl e)
      | (log1, Inr html_src_path) \<Rightarrow>
          let html_file_name = os_path_basename html_src_path;
              html_dst_path = os_path_join dst_directory html_file_name;
              log2 = log1 @ [NbCreateDir dst_directory True];
              cmd = mv_cmd html_src_path html_dst_path;
              log3 = log2 @ [NbSystem cmd]
          in (case nb_system env cmd of
                Inl e \<Rightarrow> (log3, Inl e)
              | Inr _ \<Rightarrow> (log3, Inr html_dst_path)))"

definition post_to_s3 ::
  "nb_env \<Rightarrow> string \<Rightarrow> string \<Rightarrow> string \<Rightarrow> nb_action list \<Rightarrow> nb_action list \<times> (error + string)" where
  "post_to_s3 env local_src_path s3_path aws_profile log =
     (if \<not> os_path_isfile env local_src_path then (log, Inl AssertionError)
      else if \<not> startswith s3_path ''s3://'' then (log, Inl AssertionError)
      else if \<not> endswith s3_path ''/notebooks'' then (log, Inl AssertionError)
      else
        let basename = os_path_basename local_src_path;
            remote_path = os_path_join s3_path basename;
            log1 = log @ [S3fsPut aws_profile local_src_path remote_path]
        in (case s3fs_put env aws_profile local_src_path remote_path of
              Inl e \<Rightarrow> (log1, Inl e)
            | Inr _ \<Rightarrow> (log1, Inr remote_path)))"

definition arg_or_environ :: "nb_env \<Rightarrow> string option \<Rightarrow> string \<Rightarrow> error + string" where
  \<comment> \<open>the shape \<^verbatim>\<open>_get_s3_path\<close> and \<^verbatim>\<open>_get_aws_profile\<close> share\<close>
  "arg_or_environ env arg env_var =
     (if arg \<noteq> None \<and> arg \<noteq> Some [] then Inr (the arg)
      else (case os_environ env env_var of
              None \<Rightarrow> Inl AssertionError
            | Some v \<Rightarrow> Inr v))"

definition get_s3_path :: "nb_env \<Rightarrow> nb_args \<Rightarrow> error + string" where
  "get_s3_path env args = arg_or_environ env (arg_s3_path args) ''AM_PUBLISH_NOTEBOOK_S3_PATH''"

definition get_aws_profile :: "nb_env \<Rightarrow> nb_args \<Rightarrow> error + string" where
  "get_aws_profile env args =
     arg_or_environ env (arg_aws_profile args) ''AM_PUBLISH_NOTEBOOK_AWS_PROFILE''"

definition main_open :: "nb_env \<Rightarrow> nb_args \<Rightarrow> nb_action list \<times> (error + unit)" where
  \<comment> \<open>the branch \<^verbatim>\<open>if args.action == "open"\<close> of \<^verbatim>\<open>_main\<close>\<close>
  "main_open env args =
     (let src_file_name = arg_file args in
      case get_aws_profile env args of
        Inl e \<Rightarrow> ([], Inl e)
      | Inr aws_profile \<Rightarrow>
          let cmd = ''aws s3 ls --profile '' @ aws_profile @ '' '' @ src_file_name;
              log1 = [NbSystem cmd]
          in (case nb_system env cmd of
                Inl e \<Rightarrow> (log1, Inl e)
              | Inr _ \<Rightarrow>
                  let local_file_name = os_path_basename src_file_name;
                      cmd = ''aws s3 cp --profile '' @ aws_profile @ '' '' @ src_file_name
                            @ '' '' @ local_file_name;
                      log2 = log1 @ [NbSystem cmd]
                  in (case nb_system env cmd of
                        Inl e \<Rightarrow> (log2, Inl e)
                      | Inr _ \<Rightarrow> (log2 @ [OpenFile local_file_name, SysExit 0], Inr ()))))"

definition source_file :: "nb_env \<Rightarrow> nb_args \<Rightarrow> nb_action list \<times> (error + string)" where
  \<comment> \<open>\<^verbatim>\<open>_main\<close>: "Compute the path of the src file"\<close>
  "source_file env args =
     (if arg_branch args \<noteq> None \<and> arg_branch args \<noteq> Some []
      then get_file_from_git_branch env (the (arg_branch args)) (arg_file args) []
      else ([], get_path env (arg_file args)))"

definition publish_notebook_main :: "nb_env \<Rightarrow> nb_args \<Rightarrow> nb_action list \<times> (error + unit)" where
  "publish_notebook_main env args =
     (if arg_action args = Some ''open'' then main_open env args
      else
        case source_file env args of
          (log0, Inl e) \<Rightarrow> (log0, Inl e)
        | (log0, Inr src_file_name) \<Rightarrow>
            if arg_action args = Some ''convert'' then
              (case export_notebook_to_dir env src_file_name (arg_tag args) ''.'' log0 of
                 (log1, Inl e) \<Rightarrow> (log1, Inl e)
               | (log1, Inr html_file_name) \<Rightarrow> (log1 @ [OpenFile html_file_name], Inr ()))
            else if arg_action args = Some ''publish_locally'' then
              (case (case arg_publish_notebook_dir args of
                       Some d \<Rightarrow> Inr d
                     | None \<Rightarrow>
                         (case os_environ env ''AM_PUBLISH_NOTEBOOK_LOCAL_PATH'' of
                            None \<Rightarrow> Inl AssertionError
                          | Some d \<Rightarrow> Inr d)) of
                 Inl e \<Rightarrow> (log0, Inl e)
               | Inr dst_directory \<Rightarrow>
                   if \<not> os_path_isdir env dst_directory then (log0, Inl AssertionError)
                   else
                     (case export_notebook_to_dir env src_file_name (arg_tag args) dst_directory
                             (log0 @ [NbCreateDir dst_directory True]) of
                        (log1, Inl e) \<Rightarrow> (log1, Inl e)
                      | (log1, Inr _) \<Rightarrow> (log1, Inr ())))
            else if arg_action args = Some ''publish_on_s3'' then
              (case export_notebook_to_dir env src_file_name (arg_tag args) ''.'' log0 of
                 (log1, Inl e) \<Rightarrow> (log1, Inl e)
               | (log1, Inr html_file_name) \<Rightarrow>
                   (case get_s3_path env args of
                      Inl e \<Rightarrow> (log1, Inl e)
                    | Inr s3_path \<Rightarrow>
                        (case get_aws_profile env args of
                           Inl e \<Rightarrow> (log1, Inl e)
                         | Inr aws_profile \<Rightarrow>
                             (case post_to_s3 env html_file_name s3_path aws_profile log1 of
                                (log2, Inl e) \<Rightarrow> (log2, Inl e)
                              | (log2, Inr _) \<Rightarrow> (log2, Inr ())))))
            else if arg_action args = Some ''publish_on_webserver'' then
              (log0, Inl UnboundLocalError)
            else (log0, Inl AssertionError))"

subsection \<open>Reading a log\<close>

text \<open>
  The steps of a log that convert a notebook or move a file to or from S3, and those
  among all steps that are external commands.
\<close>

fun external_command :: "nb_action \<Rightarrow> bool" where
  "external_command (NbSystem cmd) = True"
| "external_command _ = False"

fun in_process_s3_transfer :: "nb_action \<Rightarrow> bool" where
  "in_process_s3_transfer (S3fsPut aws_profile local_path remote_path) = True"
| "in_process_s3_transfer _ = False"

text \<open>Where \<^verbatim>\<open>_export_notebook_to_dir\<close> moves the HTML file to.\<close>

definition html_dst_path :: "nb_env \<Rightarrow> string \<Rightarrow> string \<Rightarrow> string \<Rightarrow> string" where
  "html_dst_path env ipynb_file_name tg dst_directory =
     os_path_join dst_directory (os_path_basename (html_dst_file_name env ipynb_file_name tg))"

section \<open>Concrete inputs\<close>

text \<open>
  A world with nothing cached yet, a wrapped function, and the objects that
  \<^verbatim>\<open>Cached(count_chars)\<close> builds in it; the theorems below are instantiated at these.
\<close>

definition empty_store :: "nat store_backend" where
  "empty_store = \<lparr>items = Map.empty, func_codes = Map.empty\<rparr>"

definition world0 :: "nat world" where
  "world0 = \<lparr>USE_CACHING = True, DISK_CACHE = None, MEMORY_CACHE = None,
     FUNCTION_HASHES = Map.empty, next_oid = 0, git_client_root = ''/repo'',
     abspath = (\<lambda>p. p), stores = (\<lambda>_. empty_store), heap = [], trace = []\<rparr>"

definition count_chars :: "(string, nat) py_function" where
  "count_chars = \<lparr>fn_oid = 7, fn_identifier = ''lib/count_chars'', fn_name = ''count_chars'',
     fn_source = ''def count_chars(s): return len(s)'', fn_first_line = 3, fn_code_hash = 11,
     fn_argument_hash = (\<lambda>s. s), fn_body = length\<rparr>"

definition disk0 :: memory where
  "disk0 = \<lparr>memory_oid = 0, location = ''/repo/tmp.joblib.disk''\<rparr>"

definition mem0 :: memory where
  "mem0 = \<lparr>memory_oid = 1, location = ''/mnt/tmpfs/tmp.joblib.mem''\<rparr>"

definition world1 :: "nat world" where
  "world1 = world0\<lparr>DISK_CACHE := Some disk0, MEMORY_CACHE := Some mem0, next_oid := 2\<rparr>"

definition cached_count :: "bool \<Rightarrow> bool \<Rightarrow> (string, nat) cached" where
  "cached_count use_mem use_disk =
     \<lparr>func = count_chars, use_mem_cache = use_mem, use_disk_cache = use_disk,
      set_verbose_mode = False, tag = None,
      last_used_disk_cache = use_disk, last_used_mem_cache = use_mem,
      disk_cache = disk0, memory_cache = mem0,
      disk_cached_func = \<lparr>mf_func = count_chars, mf_location = location disk0\<rparr>,
      memory_cached_func = \<lparr>mf_func = count_chars, mf_location = location mem0\<rparr>\<rparr>"

text \<open>The same world with an output for \<^verbatim>\<open>count_chars("abc")\<close> in the disk cache only.\<close>

definition disk_store1 :: "nat store_backend" where
  "disk_store1 = \<lparr>items = [(''lib/count_chars'', ''abc'') \<mapsto> 3],
     func_codes = [''lib/count_chars'' \<mapsto> (''def count_chars(s): return len(s)'', 3)]\<rparr>"

definition world2 :: "nat world" where
  "world2 = world1\<lparr>stores := (\<lambda>_. empty_store)(''/repo/tmp.joblib.disk'' := disk_store1)\<rparr>"

text \<open>
  And with an output in the memory cache too, stored when the source of
  \<^verbatim>\<open>count_chars\<close> was another text (\<open>mem_store_stale\<close> is such a store).
\<close>

definition mem_store_stale :: "nat store_backend" where
  "mem_store_stale = \<lparr>items = [(''lib/count_chars'', ''abc'') \<mapsto> 7],
     func_codes = [''lib/count_chars'' \<mapsto> (''def count_chars(s): return 7'', 3)]\<rparr>"

definition world3 :: "nat world" where
  "world3 = world2\<lparr>stores := (stores world2)(''/mnt/tmpfs/tmp.joblib.mem'' := mem_store_stale)\<rparr>"

text \<open>
  One exchange with two pairs, of which the download of \<^verbatim>\<open>ETH/USDT\<close> fails; a
  command line that asks for \<^verbatim>\<open>BTC/USDT\<close> and for a pair the exchange does not
  have, and one that asks for the failing pair first.
\<close>

definition ccxt_env0 :: "(nat, string) ccxt_env" where
  "ccxt_env0 = \<lparr>
     pd_Timestamp = (\<lambda>s. if s = ''2019-01-01'' then Inr 1
                          else if s = ''2019-01-02'' then Inr 2 else Inl ValueError),
     pd_Timestamp_now = 9,
     CcxtExchange = (\<lambda>exchange_id keys.
        if exchange_id = ''binance'' then Inr [''BTC/USDT'', ''ETH/USDT'']
        else Inl (ExternalError ''unknown exchange'')),
     download_ohlcv_data = (\<lambda>exchange_id pair start_ts end_ts stp.
        if pair = ''ETH/USDT'' then Inl (ExternalError ''timeout'')
        else Inr (exchange_id @ '':'' @ pair))\<rparr>"

definition hist_args0 :: hist_args where
  "hist_args0 = \<lparr>dst_dir = ''test'', api_keys = ''keys.json'', exchange_ids = ''binance'',
     currency_pairs = ''BTC/USDT XRP/USDT'', start_datetime = ''2019-01-01'',
     end_datetime = Some ''2019-01-02'', step = None, sleep_time = 60, incremental = False\<rparr>"

definition hist_args1 :: hist_args where
  "hist_args1 = hist_args0\<lparr>currency_pairs := ''ETH/USDT BTC/USDT''\<rparr>"

text \<open>An endpoint that answers the login with a given text, and the script's arguments.\<close>

definition kibot_env0 :: "string \<Rightarrow> kibot_env" where
  "kibot_env0 login_answer = \<lparr>
     API_ENDPOINT = ''http://api.kibot.com'',
     config_S3_PREFIX = ''s3://bucket/kibot'',
     requests_get = (\<lambda>url params.
        if (''action'', ''login'') \<in> set params
        then Inr \<lparr>response_text = login_answer, response_content = []\<rparr>
        else Inr \<lparr>response_text = ''AAPL,1.5'', response_content = ''AAPL,1.5''\<rparr>),
     py_int = (\<lambda>token. if token = ''200'' then Inr 200 else if token = ''407'' then Inr 407
                        else if token = ''401'' then Inr 401 else Inl ValueError),
     check_valid_s3_path = (\<lambda>path. Inr ()),
     si_system = (\<lambda>cmd. Inr ())\<rparr>"

definition adj_args0 :: adj_args where
  "adj_args0 = \<lparr>username = ''alice'', password = ''secret'', start_date = ''5/1/2020'',
     tmp_dir = ''tmp.kibot_downloader'', no_incremental = False\<rparr>"

text \<open>A notebook in the working directory, published on S3 and opened from there.\<close>

definition nb_env0 :: nb_env where
  "nb_env0 = \<lparr>
     os_path_exists = (\<lambda>p. True), os_path_isfile = (\<lambda>p. True), os_path_isdir = (\<lambda>p. True),
     os_path_realpath = (\<lambda>p. ''/work/'' @ p),
     gettempdir = ''/tmp'', now_strftime = ''20200101_120000'',
     os_environ = [''AM_PUBLISH_NOTEBOOK_AWS_PROFILE'' \<mapsto> ''am''],
     nb_system = (\<lambda>cmd. Inr ()), s3fs_put = (\<lambda>aws_profile local_path remote_path. Inr ())\<rparr>"

definition nb_args_s3 :: nb_args where
  "nb_args_s3 = \<lparr>arg_file = ''nb.ipynb'', arg_branch = None, arg_publish_notebook_dir = None,
     arg_tag = [], arg_s3_path = Some ''s3://bucket/notebooks'', arg_aws_profile = None,
     arg_action = Some ''publish_on_s3''\<rparr>"

definition nb_args_open :: nb_args where
  "nb_args_open = nb_args_s3\<lparr>arg_file := ''s3://bucket/notebooks/nb.20200101_120000.html'',
     arg_action := Some ''open''\<rparr>"

text \<open>
  The other way round: the disk cache holds an output stored under another source, the
  memory cache a valid one.
\<close>

definition world4 :: "nat world" where
  "world4 = world1\<lparr>stores := (\<lambda>_. empty_store)
     (''/repo/tmp.joblib.disk'' := mem_store_stale, ''/mnt/tmpfs/tmp.joblib.mem'' := disk_store1)\<rparr>"

text \<open>The first command line with its pair given twice.\<close>

definition hist_args_twice :: hist_args where
  "hist_args_twice = hist_args0\<lparr>currency_pairs := ''BTC/USDT BTC/USDT''\<rparr>"

section \<open>Theorems\<close>

subsection \<open>What each function does to the world\<close>


lemma Cached_init_inv:
  "Cached_init f um ud vb tg w = Inr (c, w1) \<Longrightarrow> cached_inv c"
  by (auto simp: Cached_init_def cached_inv_def Memory_cache_def split: sum.splits prod.splits)

lemma log_event_sel [simp]:
  "trace (log_event e w) = trace w @ [e]"
  "heap (log_event e w) = heap w"
  "stores (log_event e w) = stores w"
  "FUNCTION_HASHES (log_event e w) = FUNCTION_HASHES w"
  "USE_CACHING (log_event e w) = USE_CACHING w"
  by (simp_all add: log_event_def)

lemma new_object_sel [simp]:
  "fst (new_object v w) = length (heap w)"
  "trace (snd (new_object v w)) = trace w"
  "heap (snd (new_object v w)) = heap w @ [v]"
  "stores (snd (new_object v w)) = stores w"
  "FUNCTION_HASHES (snd (new_object v w)) = FUNCTION_HASHES w"
  by (simp_all add: new_object_def)

lemma dump_item_sel [simp]:
  "trace (dump_item loc k obj w) = trace w @ [DumpItem loc]"
  "heap (dump_item loc k obj w) = heap w"
  "FUNCTION_HASHES (dump_item loc k obj w) = FUNCTION_HASHES w"
  "items (stores (dump_item loc k obj w) loc) k = Some (heap w ! obj)"
  "func_codes (stores (dump_item loc k obj w) l) = func_codes (stores w l)"
  by (simp_all add: dump_item_def Let_def)

lemma write_func_code_sel [simp]:
  "trace (write_func_code mf code fl w) = trace w"
  "heap (write_func_code mf code fl w) = heap w"
  "items (stores (write_func_code mf code fl w) l) = items (stores w l)"
  by (simp_all add: write_func_code_def store_cached_func_code_def Let_def)

lemma write_func_code_current:
  "code_is_current mf (write_func_code mf (fn_source (mf_func mf)) fl w)"
  by (simp add: code_is_current_def write_func_code_def store_cached_func_code_def Let_def
      function_hash_is_current_def)

lemma code_is_current_cong:
  assumes "FUNCTION_HASHES w' = FUNCTION_HASHES w"
      and "func_codes (stores w' (mf_location mf)) = func_codes (stores w (mf_location mf))"
  shows "code_is_current mf w' = code_is_current mf w"
  using assms by (simp add: code_is_current_def function_hash_is_current_def)

lemma has_cached_version_cases:
  assumes "Cached_get_cache c cache_type = Inr cache" and "mf_func cache = func c"
      and "(func_id, args_id) = get_output_identifiers cache args"
  shows "has_cached_version c cache_type func_id args_id w =
     (if entry_of cache args w = None then Inr False
      else if function_hash_is_current (func c) (hash_func cache) w then Inr True
      else (case func_codes (stores w (mf_location cache)) func_id of
              None \<Rightarrow> Inl IOError
            | Some (old_func_code, _) \<Rightarrow> Inr (fn_source (func c) = old_func_code)))"
  using assms
  by (auto simp: has_cached_version_def contains_item_def entry_of_def get_cached_func_code_def
      Let_def split: option.splits sum.splits)

lemma has_cached_version_True_iff:
  assumes "Cached_get_cache c cache_type = Inr cache" and "mf_func cache = func c"
      and "(func_id, args_id) = get_output_identifiers cache args"
  shows "has_cached_version c cache_type func_id args_id w = Inr True
     \<longleftrightarrow> entry_of cache args w \<noteq> None \<and> code_is_current cache w"
  unfolding has_cached_version_cases [OF assms]
  using assms
  by (auto simp: code_is_current_def get_output_identifiers_def split: option.splits)

lemma has_cached_version_False_imp:
  assumes "Cached_get_cache c cache_type = Inr cache" and "mf_func cache = func c"
      and "(func_id, args_id) = get_output_identifiers cache args"
      and "has_cached_version c cache_type func_id args_id w = Inr False"
  shows "entry_of cache args w = None \<or> \<not> code_is_current cache w"
  using assms(4) unfolding has_cached_version_cases [OF assms(1-3)]
  using assms(1-3)
  by (auto simp: code_is_current_def get_output_identifiers_def split: option.splits if_splits)

lemma mf_cached_call_hit:
  assumes "entry_of mf args w = Some v" and "code_is_current mf w"
  shows "mf_cached_call mf args w = load_item (mf_location mf) v w"
  using assms
  by (auto simp: mf_cached_call_def check_previous_func_code_def code_is_current_def entry_of_def
      contains_item_def get_cached_func_code_def Let_def split: prod.splits option.splits sum.splits)

lemma check_previous_func_code_sel [simp]:
  "trace (snd (check_previous_func_code mf w)) = trace w"
  "heap (snd (check_previous_func_code mf w)) = heap w"
  by (auto simp: check_previous_func_code_def mf_clear_def clear_path_def Let_def
      split: sum.splits prod.splits)

lemma mf_call_sel:
  "fst (mf_call mf args w) = length (heap w)"
  "trace (snd (mf_call mf args w)) = trace w @ [CallFunc, DumpItem (mf_location mf)]"
  "heap (snd (mf_call mf args w)) = heap w @ [fn_body (mf_func mf) args]"
  "entry_of mf args (snd (mf_call mf args w)) = Some (fn_body (mf_func mf) args)"
  "FUNCTION_HASHES (snd (mf_call mf args w)) = FUNCTION_HASHES w"
  "func_codes (stores (snd (mf_call mf args w)) l) = func_codes (stores w l)"
  by (simp_all add: mf_call_def run_func_def entry_of_def split: prod.splits)
    (simp_all add: new_object_def log_event_def dump_item_def)

lemma mf_cached_call_miss:
  assumes "entry_of mf args w = None \<or> \<not> code_is_current mf w"
  shows "mf_cached_call mf args w = mf_call mf args (snd (check_previous_func_code mf w))"
  using assms
  by (auto simp: mf_cached_call_def check_previous_func_code_def code_is_current_def entry_of_def
      contains_item_def get_cached_func_code_def Let_def write_func_code_def
      store_cached_func_code_def mf_clear_def clear_path_def get_output_identifiers_def
      split: prod.splits option.splits sum.splits if_splits)

lemma check_previous_func_code_current:
  "code_is_current mf (snd (check_previous_func_code mf w))"
  by (auto simp: check_previous_func_code_def code_is_current_def get_cached_func_code_def Let_def
      mf_clear_def write_func_code_def store_cached_func_code_def clear_path_def
      function_hash_is_current_def
      split: sum.splits prod.splits option.splits)

text \<open>What a miss in joblib leaves behind.\<close>

lemma mf_cached_call_miss_effect:
  assumes "entry_of mf args w = None \<or> \<not> code_is_current mf w"
      and "mf_cached_call mf args w = (obj, w')"
  shows "obj = length (heap w)
       \<and> trace w' = trace w @ [CallFunc, DumpItem (mf_location mf)]
       \<and> heap w' = heap w @ [fn_body (mf_func mf) args]
       \<and> entry_of mf args w' = Some (fn_body (mf_func mf) args)
       \<and> code_is_current mf w'"
proof -
  let ?w1 = "snd (check_previous_func_code mf w)"
  have eq: "mf_call mf args ?w1 = (obj, w')"
    using mf_cached_call_miss [OF assms(1)] assms(2) by simp
  have cur: "code_is_current mf w'"
  proof -
    have "code_is_current mf (snd (mf_call mf args ?w1)) = code_is_current mf ?w1"
      by (rule code_is_current_cong) (simp_all add: mf_call_sel)
    then show ?thesis using eq check_previous_func_code_current [of mf w] by simp
  qed
  from eq have "obj = fst (mf_call mf args ?w1)" "w' = snd (mf_call mf args ?w1)" by simp_all
  then show ?thesis using cur by (simp add: mf_call_sel)
qed

lemma mf_cached_call_hit_effect:
  assumes "entry_of mf args w = Some v" and "code_is_current mf w"
      and "mf_cached_call mf args w = (obj, w')"
  shows "obj = length (heap w)
       \<and> trace w' = trace w @ [LoadItem (mf_location mf)]
       \<and> heap w' = heap w @ [v]
       \<and> stores w' = stores w \<and> FUNCTION_HASHES w' = FUNCTION_HASHES w"
proof -
  have "load_item (mf_location mf) v w = (obj, w')"
    using mf_cached_call_hit [OF assms(1,2)] assms(3) by simp
  then have "obj = fst (load_item (mf_location mf) v w)" "w' = snd (load_item (mf_location mf) v w)"
    by simp_all
  then show ?thesis by (simp add: load_item_def)
qed


lemma get_identifiers_simps [simp]:
  "get_identifiers c ''disk'' args = Inr (get_output_identifiers (disk_cached_func c) args)"
  "get_identifiers c ''mem'' args = Inr (get_output_identifiers (memory_cached_func c) args)"
  by (simp_all add: get_identifiers_def Cached_get_cache_def)

lemma Cached_get_cache_simps [simp]:
  "Cached_get_cache c ''disk'' = Inr (disk_cached_func c)"
  "Cached_get_cache c ''mem'' = Inr (memory_cached_func c)"
  by (simp_all add: Cached_get_cache_def)

lemma has_cached_version_cong:
  assumes "func c' = func c" "memory_cached_func c' = memory_cached_func c"
      "disk_cached_func c' = disk_cached_func c" "stores w' = stores w"
      "FUNCTION_HASHES w' = FUNCTION_HASHES w"
  shows "has_cached_version c' cache_type func_id args_id w'
       = has_cached_version c cache_type func_id args_id w"
  using assms
  by (simp add: has_cached_version_def Cached_get_cache_def contains_item_def
      function_hash_is_current_def get_cached_func_code_def)

text \<open>The disk level.\<close>

lemma disk_cache_hit:
  assumes inv: "cached_inv c"
      and ids: "(func_id, args_id) = get_output_identifiers (disk_cached_func c) args"
      and hit: "has_cached_version c ''disk'' func_id args_id w = Inr True"
  shows "\<exists>v w'. entry_of (disk_cached_func c) args w = Some v
       \<and> execute_func_from_disk_cache c args w = Inr (length (heap w), c, w')
       \<and> trace w' = trace w @ [Lookup ''disk'', LoadItem (mf_location (disk_cached_func c))]
       \<and> heap w' = heap w @ [v]
       \<and> stores w' = stores w \<and> FUNCTION_HASHES w' = FUNCTION_HASHES w"
proof -
  let ?mf = "disk_cached_func c"
  let ?w0 = "log_event (Lookup ''disk'') w"
  have f: "mf_func ?mf = func c" using inv by (simp add: cached_inv_def)
  from hit have "entry_of ?mf args w \<noteq> None \<and> code_is_current ?mf w"
    using has_cached_version_True_iff [OF Cached_get_cache_simps(1) f ids] by simp
  then obtain v where v: "entry_of ?mf args w = Some v" and cur: "code_is_current ?mf w"
    by auto
  have v0: "entry_of ?mf args ?w0 = Some v" using v by (simp add: entry_of_def)
  have cur0: "code_is_current ?mf ?w0"
    using cur code_is_current_cong [of ?w0 w ?mf] by simp
  obtain obj w' where call: "mf_cached_call ?mf args ?w0 = (obj, w')" by (cases "mf_cached_call ?mf args ?w0")
  note eff = mf_cached_call_hit_effect [OF v0 cur0 call]
  have "execute_func_from_disk_cache c args w = Inr (obj, c, w')"
    using hit call ids [symmetric] by (simp add: execute_func_from_disk_cache_def)
  with eff v show ?thesis by simp
qed

lemma disk_cache_miss:
  assumes inv: "cached_inv c"
      and ids: "(func_id, args_id) = get_output_identifiers (disk_cached_func c) args"
      and miss: "has_cached_version c ''disk'' func_id args_id w = Inr False"
  shows "\<exists>w'. execute_func_from_disk_cache c args w
           = Inr (length (heap w), c\<lparr>last_used_disk_cache := False\<rparr>, w')
       \<and> trace w' = trace w @ [Lookup ''disk'', CallFunc, DumpItem (mf_location (disk_cached_func c))]
       \<and> heap w' = heap w @ [fn_body (func c) args]
       \<and> entry_of (disk_cached_func c) args w' = Some (fn_body (func c) args)
       \<and> code_is_current (disk_cached_func c) w'"
proof -
  let ?mf = "disk_cached_func c"
  let ?w0 = "log_event (Lookup ''disk'') w"
  have f: "mf_func ?mf = func c" using inv by (simp add: cached_inv_def)
  have "entry_of ?mf args w = None \<or> \<not> code_is_current ?mf w"
    by (rule has_cached_version_False_imp [OF Cached_get_cache_simps(1) f ids miss])
  moreover have "entry_of ?mf args ?w0 = entry_of ?mf args w" by (simp add: entry_of_def)
  moreover have "code_is_current ?mf ?w0 = code_is_current ?mf w"
    by (rule code_is_current_cong) simp_all
  ultimately have m0: "entry_of ?mf args ?w0 = None \<or> \<not> code_is_current ?mf ?w0" by simp
  obtain obj w' where call: "mf_cached_call ?mf args ?w0 = (obj, w')" by (cases "mf_cached_call ?mf args ?w0")
  note eff = mf_cached_call_miss_effect [OF m0 call]
  have "execute_func_from_disk_cache c args w = Inr (obj, c\<lparr>last_used_disk_cache := False\<rparr>, w')"
    using miss call ids [symmetric] by (simp add: execute_func_from_disk_cache_def)
  with eff f show ?thesis by simp
qed

text \<open>Storing into a cache by hand.\<close>

lemma store_cached_version_effect:
  assumes "Cached_get_cache c cache_type = Inr cache"
      and "(func_id, args_id) = get_output_identifiers cache args"
  shows "\<exists>w'. store_cached_version c cache_type func_id args_id obj w = Inr w'
       \<and> trace w' = trace w @ [DumpItem (mf_location cache)]
       \<and> heap w' = heap w
       \<and> entry_of cache args w' = Some (heap w ! obj)
       \<and> code_is_current cache w'"
proof -
  let ?w1 = "write_func_code cache (fn_source (mf_func cache)) (fn_first_line (mf_func cache)) w"
  let ?w2 = "dump_item (mf_location cache) (func_id, args_id) obj ?w1"
  have s: "store_cached_version c cache_type func_id args_id obj w = Inr ?w2"
    using assms(1) by (simp add: store_cached_version_def Let_def)
  have "code_is_current cache ?w2 = code_is_current cache ?w1"
    by (rule code_is_current_cong) simp_all
  then have "code_is_current cache ?w2" by (simp add: write_func_code_current)
  moreover have "entry_of cache args ?w2 = Some (heap w ! obj)"
    using assms(2) [symmetric] by (simp add: entry_of_def)
  ultimately show ?thesis using s by simp
qed


lemma cached_inv_flags [simp]:
  "cached_inv (c\<lparr>last_used_mem_cache := b\<rparr>) = cached_inv c"
  "cached_inv (c\<lparr>last_used_disk_cache := b\<rparr>) = cached_inv c"
  "cached_inv (reset_cache_tracing c) = cached_inv c"
  by (simp_all add: cached_inv_def reset_cache_tracing_def)

text \<open>The memory level.\<close>

lemma mem_cache_hit:
  assumes inv: "cached_inv c"
      and ids: "(func_id, args_id) = get_output_identifiers (memory_cached_func c) args"
      and hit: "has_cached_version c ''mem'' func_id args_id w = Inr True"
  shows "\<exists>v w'. entry_of (memory_cached_func c) args w = Some v
       \<and> execute_func_from_mem_cache c args w = Inr (length (heap w), c, w')
       \<and> trace w' = trace w @ [Lookup ''mem'', LoadItem (mf_location (memory_cached_func c))]
       \<and> heap w' = heap w @ [v]
       \<and> stores w' = stores w \<and> FUNCTION_HASHES w' = FUNCTION_HASHES w"
proof -
  let ?mf = "memory_cached_func c"
  let ?w0 = "log_event (Lookup ''mem'') w"
  have f: "mf_func ?mf = func c" using inv by (simp add: cached_inv_def)
  from hit have "entry_of ?mf args w \<noteq> None \<and> code_is_current ?mf w"
    using has_cached_version_True_iff [OF Cached_get_cache_simps(2) f ids] by simp
  then obtain v where v: "entry_of ?mf args w = Some v" and cur: "code_is_current ?mf w"
    by auto
  have v0: "entry_of ?mf args ?w0 = Some v" using v by (simp add: entry_of_def)
  have cur0: "code_is_current ?mf ?w0"
    using cur code_is_current_cong [of ?w0 w ?mf] by simp
  obtain obj w' where call: "mf_cached_call ?mf args ?w0 = (obj, w')" by (cases "mf_cached_call ?mf args ?w0")
  note eff = mf_cached_call_hit_effect [OF v0 cur0 call]
  have "execute_func_from_mem_cache c args w = Inr (obj, c, w')"
    using hit call ids [symmetric] by (simp add: execute_func_from_mem_cache_def)
  with eff v show ?thesis by simp
qed

lemma mem_cache_miss_store:
  assumes ids: "(func_id, args_id) = get_output_identifiers (memory_cached_func c) args"
      and miss: "has_cached_version c ''mem'' func_id args_id w = Inr False"
      and lower: "(if use_disk_cache c
                   then execute_func_from_disk_cache (c\<lparr>last_used_mem_cache := False\<rparr>) args
                          (log_event (Lookup ''mem'') w)
                   else (let (obj, w1) = mf_cached_call (memory_cached_func c) args
                                           (log_event (Lookup ''mem'') w)
                         in Inr (obj, c\<lparr>last_used_mem_cache := False\<rparr>, w1)))
                  = Inr (obj, c2, w2)"
      and c2: "memory_cached_func c2 = memory_cached_func c"
  shows "\<exists>w'. execute_func_from_mem_cache c args w = Inr (obj, c2, w')
       \<and> trace w' = trace w2 @ [DumpItem (mf_location (memory_cached_func c))]
       \<and> heap w' = heap w2
       \<and> entry_of (memory_cached_func c) args w' = Some (heap w2 ! obj)
       \<and> code_is_current (memory_cached_func c) w'"
proof -
  have g: "Cached_get_cache c2 ''mem'' = Inr (memory_cached_func c)" using c2 by simp
  from store_cached_version_effect [OF g ids, of obj w2]
  obtain w' where s: "store_cached_version c2 ''mem'' func_id args_id obj w2 = Inr w'"
    and eff: "trace w' = trace w2 @ [DumpItem (mf_location (memory_cached_func c))]"
       "heap w' = heap w2"
       "entry_of (memory_cached_func c) args w' = Some (heap w2 ! obj)"
       "code_is_current (memory_cached_func c) w'"
    by blast
  have "execute_func_from_mem_cache c args w =
      (case (if use_disk_cache c
             then execute_func_from_disk_cache (c\<lparr>last_used_mem_cache := False\<rparr>) args
                    (log_event (Lookup ''mem'') w)
             else (let (obj, w1) = mf_cached_call (memory_cached_func c) args
                                     (log_event (Lookup ''mem'') w)
                   in Inr (obj, c\<lparr>last_used_mem_cache := False\<rparr>, w1))) of
         Inl e \<Rightarrow> Inl e
       | Inr (obj, c2, w2) \<Rightarrow>
           (case store_cached_version c2 ''mem'' func_id args_id obj w2 of
              Inl e \<Rightarrow> Inl e
            | Inr w3 \<Rightarrow> Inr (obj, c2, w3)))"
    using miss ids [symmetric]
    by (simp add: execute_func_from_mem_cache_def Let_def split del: if_split cong: if_cong)
  also have "\<dots> = Inr (obj, c2, w')"
    unfolding lower using s by simp
  finally have "execute_func_from_mem_cache c args w = Inr (obj, c2, w')" .
  with eff show ?thesis by simp
qed

lemma mem_miss_disk_hit:
  assumes inv: "cached_inv c" and ud: "use_disk_cache c"
      and ids: "(func_id, args_id) = get_output_identifiers (memory_cached_func c) args"
      and miss: "has_cached_version c ''mem'' func_id args_id w = Inr False"
      and hit: "has_cached_version c ''disk'' func_id args_id w = Inr True"
  shows "\<exists>v w'. entry_of (disk_cached_func c) args w = Some v
       \<and> execute_func_from_mem_cache c args w
           = Inr (length (heap w), c\<lparr>last_used_mem_cache := False\<rparr>, w')
       \<and> trace w' = trace w @ [Lookup ''mem'', Lookup ''disk'',
              LoadItem (mf_location (disk_cached_func c)),
              DumpItem (mf_location (memory_cached_func c))]
       \<and> heap w' = heap w @ [v]
       \<and> entry_of (memory_cached_func c) args w' = Some v
       \<and> code_is_current (memory_cached_func c) w'"
proof -
  let ?c1 = "c\<lparr>last_used_mem_cache := False\<rparr>"
  let ?w0 = "log_event (Lookup ''mem'') w"
  have same: "get_output_identifiers (disk_cached_func c) args
            = get_output_identifiers (memory_cached_func c) args"
    using inv by (simp add: get_output_identifiers_def cached_inv_def)
  have ids1: "(func_id, args_id) = get_output_identifiers (disk_cached_func ?c1) args"
    using ids same by simp
  have hit1: "has_cached_version ?c1 ''disk'' func_id args_id ?w0 = Inr True"
    using hit has_cached_version_cong [of ?c1 c ?w0 w] by simp
  have inv1: "cached_inv ?c1" using inv by simp
  from disk_cache_hit [OF inv1 ids1 hit1]
  obtain v w2 where v: "entry_of (disk_cached_func c) args w = Some v"
    and d: "execute_func_from_disk_cache ?c1 args ?w0 = Inr (length (heap w), ?c1, w2)"
    and eff: "trace w2 = trace w @ [Lookup ''mem'', Lookup ''disk'',
                 LoadItem (mf_location (disk_cached_func c))]"
       "heap w2 = heap w @ [v]"
    by (auto simp: entry_of_def)
  have lower: "(if use_disk_cache c
                   then execute_func_from_disk_cache ?c1 args ?w0
                   else (let (obj, w1) = mf_cached_call (memory_cached_func c) args ?w0
                         in Inr (obj, ?c1, w1)))
                = Inr (length (heap w), ?c1, w2)"
    using ud d by simp
  from mem_cache_miss_store [OF ids miss lower] eff v show ?thesis by auto
qed

lemma mem_miss_disk_miss:
  assumes inv: "cached_inv c" and ud: "use_disk_cache c"
      and ids: "(func_id, args_id) = get_output_identifiers (memory_cached_func c) args"
      and miss: "has_cached_version c ''mem'' func_id args_id w = Inr False"
      and dmiss: "has_cached_version c ''disk'' func_id args_id w = Inr False"
  shows "\<exists>w'. execute_func_from_mem_cache c args w
           = Inr (length (heap w), c\<lparr>last_used_mem_cache := False, last_used_disk_cache := False\<rparr>, w')
       \<and> trace w' = trace w @ [Lookup ''mem'', Lookup ''disk'', CallFunc,
              DumpItem (mf_location (disk_cached_func c)),
              DumpItem (mf_location (memory_cached_func c))]
       \<and> heap w' = heap w @ [fn_body (func c) args]
       \<and> entry_of (memory_cached_func c) args w' = Some (fn_body (func c) args)
       \<and> code_is_current (memory_cached_func c) w'"
proof -
  let ?c1 = "c\<lparr>last_used_mem_cache := False\<rparr>"
  let ?w0 = "log_event (Lookup ''mem'') w"
  have same: "get_output_identifiers (disk_cached_func c) args
            = get_output_identifiers (memory_cached_func c) args"
    using inv by (simp add: get_output_identifiers_def cached_inv_def)
  have ids1: "(func_id, args_id) = get_output_identifiers (disk_cached_func ?c1) args"
    using ids same by simp
  have miss1: "has_cached_version ?c1 ''disk'' func_id args_id ?w0 = Inr False"
    using dmiss has_cached_version_cong [of ?c1 c ?w0 w] by simp
  have inv1: "cached_inv ?c1" using inv by simp
  from disk_cache_miss [OF inv1 ids1 miss1]
  obtain w2 where
    d: "execute_func_from_disk_cache ?c1 args ?w0
          = Inr (length (heap w), ?c1\<lparr>last_used_disk_cache := False\<rparr>, w2)"
    and eff: "trace w2 = trace w @ [Lookup ''mem'', Lookup ''disk'', CallFunc,
                 DumpItem (mf_location (disk_cached_func c))]"
       "heap w2 = heap w @ [fn_body (func c) args]"
    by auto
  have lower: "(if use_disk_cache c
                   then execute_func_from_disk_cache ?c1 args ?w0
                   else (let (obj, w1) = mf_cached_call (memory_cached_func c) args ?w0
                         in Inr (obj, ?c1, w1)))
                = Inr (length (heap w), ?c1\<lparr>last_used_disk_cache := False\<rparr>, w2)"
    using ud d by simp
  from mem_cache_miss_store [OF ids miss lower] eff show ?thesis by auto
qed

lemma mem_miss_no_disk:
  assumes inv: "cached_inv c" and ud: "\<not> use_disk_cache c"
      and ids: "(func_id, args_id) = get_output_identifiers (memory_cached_func c) args"
      and miss: "has_cached_version c ''mem'' func_id args_id w = Inr False"
  shows "\<exists>w'. execute_func_from_mem_cache c args w
           = Inr (length (heap w), c\<lparr>last_used_mem_cache := False\<rparr>, w')
       \<and> trace w' = trace w @ [Lookup ''mem'', CallFunc,
              DumpItem (mf_location (memory_cached_func c)),
              DumpItem (mf_location (memory_cached_func c))]
       \<and> heap w' = heap w @ [fn_body (func c) args]
       \<and> entry_of (memory_cached_func c) args w' = Some (fn_body (func c) args)
       \<and> code_is_current (memory_cached_func c) w'"
proof -
  let ?c1 = "c\<lparr>last_used_mem_cache := False\<rparr>"
  let ?mf = "memory_cached_func c"
  let ?w0 = "log_event (Lookup ''mem'') w"
  have f: "mf_func ?mf = func c" using inv by (simp add: cached_inv_def)
  have "entry_of ?mf args w = None \<or> \<not> code_is_current ?mf w"
    by (rule has_cached_version_False_imp [OF Cached_get_cache_simps(2) f ids miss])
  moreover have "entry_of ?mf args ?w0 = entry_of ?mf args w" by (simp add: entry_of_def)
  moreover have "code_is_current ?mf ?w0 = code_is_current ?mf w"
    by (rule code_is_current_cong) simp_all
  ultimately have m0: "entry_of ?mf args ?w0 = None \<or> \<not> code_is_current ?mf ?w0" by simp
  obtain obj w2 where call: "mf_cached_call ?mf args ?w0 = (obj, w2)" by (cases "mf_cached_call ?mf args ?w0")
  note eff = mf_cached_call_miss_effect [OF m0 call]
  have lower: "(if use_disk_cache c
                   then execute_func_from_disk_cache ?c1 args ?w0
                   else (let (obj, w1) = mf_cached_call (memory_cached_func c) args ?w0
                         in Inr (obj, ?c1, w1)))
                = Inr (obj, ?c1, w2)"
    using ud call by simp
  from mem_cache_miss_store [OF ids miss lower] eff f show ?thesis by auto
qed


lemma reset_cache_tracing_sel [simp]:
  "func (reset_cache_tracing c) = func c"
  "use_mem_cache (reset_cache_tracing c) = use_mem_cache c"
  "use_disk_cache (reset_cache_tracing c) = use_disk_cache c"
  "memory_cached_func (reset_cache_tracing c) = memory_cached_func c"
  "disk_cached_func (reset_cache_tracing c) = disk_cached_func c"
  "last_used_mem_cache (reset_cache_tracing c) = use_mem_cache c"
  "last_used_disk_cache (reset_cache_tracing c) = use_disk_cache c"
  by (simp_all add: reset_cache_tracing_def)

lemma has_cached_version_reset [simp]:
  "has_cached_version (reset_cache_tracing c) cache_type func_id args_id w
     = has_cached_version c cache_type func_id args_id w"
  by (rule has_cached_version_cong) simp_all

lemma entry_of_cong:
  "stores w' = stores w \<Longrightarrow> entry_of mf args w' = entry_of mf args w"
  by (simp add: entry_of_def)

lemma deepcopy_sel [simp]:
  "fst (deepcopy obj w) = length (heap w)"
  "trace (snd (deepcopy obj w)) = trace w @ [Deepcopy]"
  "heap (snd (deepcopy obj w)) = heap w @ [heap w ! obj]"
  "stores (snd (deepcopy obj w)) = stores w"
  "FUNCTION_HASHES (snd (deepcopy obj w)) = FUNCTION_HASHES w"
  by (simp_all add: deepcopy_def)

lemma Cached_call_enabled:
  assumes "is_caching_enabled w"
      and "execute_func (reset_cache_tracing c) args w = Inr (obj, c2, w2)"
  shows "Cached_call c args w = Inr (length (heap w2), c2, snd (deepcopy obj w2))"
  using assms by (simp add: Cached_call_def Let_def split_beta)

lemma Cached_call_error:
  assumes "is_caching_enabled w"
      and "execute_func (reset_cache_tracing c) args w = Inl e"
  shows "Cached_call c args w = Inl e"
  using assms by (simp add: Cached_call_def Let_def)

lemma run_func_sel [simp]:
  "fst (run_func f args w) = length (heap w)"
  "trace (snd (run_func f args w)) = trace w @ [CallFunc]"
  "heap (snd (run_func f args w)) = heap w @ [fn_body f args]"
  "stores (snd (run_func f args w)) = stores w"
  "FUNCTION_HASHES (snd (run_func f args w)) = FUNCTION_HASHES w"
  by (simp_all add: run_func_def)

text \<open>Caching disabled.\<close>

lemma Cached_call_disabled:
  assumes "\<not> is_caching_enabled w"
  shows "\<exists>w'. Cached_call c args w
           = Inr (length (heap w), c\<lparr>last_used_disk_cache := False, last_used_mem_cache := False\<rparr>, w')
       \<and> trace w' = trace w @ [CallFunc]
       \<and> heap w' = heap w @ [fn_body (func c) args]
       \<and> stores w' = stores w \<and> FUNCTION_HASHES w' = FUNCTION_HASHES w"
proof -
  obtain obj w' where r: "run_func (func c) args w = (obj, w')" by (cases "run_func (func c) args w")
  then have "obj = fst (run_func (func c) args w)" "w' = snd (run_func (func c) args w)" by simp_all
  moreover have "Cached_call c args w
      = Inr (obj, c\<lparr>last_used_disk_cache := False, last_used_mem_cache := False\<rparr>, w')"
    using assms r by (simp add: Cached_call_def Let_def)
  ultimately show ?thesis by simp
qed

text \<open>Caching enabled, no cache level in use.\<close>

lemma Cached_call_no_level:
  assumes "is_caching_enabled w" "\<not> use_mem_cache c" "\<not> use_disk_cache c"
  shows "\<exists>w'. Cached_call c args w
           = Inr (Suc (length (heap w)), reset_cache_tracing c, w')
       \<and> trace w' = trace w @ [CallFunc, Deepcopy]
       \<and> heap w' = heap w @ [fn_body (func c) args, fn_body (func c) args]
       \<and> stores w' = stores w \<and> FUNCTION_HASHES w' = FUNCTION_HASHES w"
proof -
  let ?c = "reset_cache_tracing c"
  obtain obj w2 where r: "run_func (func c) args w = (obj, w2)" by (cases "run_func (func c) args w")
  then have o: "obj = fst (run_func (func c) args w)" "w2 = snd (run_func (func c) args w)" by simp_all
  have "execute_func ?c args w = Inr (obj, ?c, w2)"
    using assms r by (simp add: execute_func_def)
  from Cached_call_enabled [OF assms(1) this] o show ?thesis by simp
qed

text \<open>Memory level in use.\<close>

lemma Cached_call_mem_hit:
  assumes inv: "cached_inv c" and en: "is_caching_enabled w" and um: "use_mem_cache c"
      and ids: "(func_id, args_id) = get_output_identifiers (memory_cached_func c) args"
      and hit: "has_cached_version c ''mem'' func_id args_id w = Inr True"
  shows "\<exists>v w'. Cached_call c args w = Inr (Suc (length (heap w)), reset_cache_tracing c, w')
       \<and> trace w' = trace w @ [Lookup ''mem'', LoadItem (mf_location (memory_cached_func c)), Deepcopy]
       \<and> heap w' = heap w @ [v, v]
       \<and> entry_of (memory_cached_func c) args w = Some v
       \<and> stores w' = stores w \<and> FUNCTION_HASHES w' = FUNCTION_HASHES w"
proof -
  let ?c = "reset_cache_tracing c"
  have inv': "cached_inv ?c" using inv by simp
  have ids': "(func_id, args_id) = get_output_identifiers (memory_cached_func ?c) args"
    using ids by simp
  have hit': "has_cached_version ?c ''mem'' func_id args_id w = Inr True" using hit by simp
  from mem_cache_hit [OF inv' ids' hit']
  obtain v w2 where v: "entry_of (memory_cached_func c) args w = Some v"
    and e: "execute_func_from_mem_cache ?c args w = Inr (length (heap w), ?c, w2)"
    and eff: "trace w2 = trace w @ [Lookup ''mem'', LoadItem (mf_location (memory_cached_func c))]"
      "heap w2 = heap w @ [v]" "stores w2 = stores w" "FUNCTION_HASHES w2 = FUNCTION_HASHES w"
    by auto
  have "execute_func ?c args w = Inr (length (heap w), ?c, w2)"
    using um e by (simp add: execute_func_def)
  from Cached_call_enabled [OF en this] eff v show ?thesis by simp
qed

lemma Cached_call_mem_miss_disk_hit:
  assumes inv: "cached_inv c" and en: "is_caching_enabled w"
      and um: "use_mem_cache c" and ud: "use_disk_cache c"
      and ids: "(func_id, args_id) = get_output_identifiers (memory_cached_func c) args"
      and miss: "has_cached_version c ''mem'' func_id args_id w = Inr False"
      and hit: "has_cached_version c ''disk'' func_id args_id w = Inr True"
  shows "\<exists>v w'. Cached_call c args w
           = Inr (Suc (length (heap w)), (reset_cache_tracing c)\<lparr>last_used_mem_cache := False\<rparr>, w')
       \<and> trace w' = trace w @ [Lookup ''mem'', Lookup ''disk'',
              LoadItem (mf_location (disk_cached_func c)),
              DumpItem (mf_location (memory_cached_func c)), Deepcopy]
       \<and> heap w' = heap w @ [v, v]
       \<and> entry_of (disk_cached_func c) args w = Some v
       \<and> entry_of (memory_cached_func c) args w' = Some v
       \<and> code_is_current (memory_cached_func c) w'"
proof -
  let ?c = "reset_cache_tracing c"
  have inv': "cached_inv ?c" using inv by simp
  have ud': "use_disk_cache ?c" using ud by simp
  have ids': "(func_id, args_id) = get_output_identifiers (memory_cached_func ?c) args"
    using ids by simp
  have miss': "has_cached_version ?c ''mem'' func_id args_id w = Inr False" using miss by simp
  have hit': "has_cached_version ?c ''disk'' func_id args_id w = Inr True" using hit by simp
  from mem_miss_disk_hit [OF inv' ud' ids' miss' hit']
  obtain v w2 where v: "entry_of (disk_cached_func c) args w = Some v"
    and e: "execute_func_from_mem_cache ?c args w
              = Inr (length (heap w), ?c\<lparr>last_used_mem_cache := False\<rparr>, w2)"
    and eff: "trace w2 = trace w @ [Lookup ''mem'', Lookup ''disk'',
              LoadItem (mf_location (disk_cached_func c)),
              DumpItem (mf_location (memory_cached_func c))]"
      "heap w2 = heap w @ [v]"
      "entry_of (memory_cached_func c) args w2 = Some v"
      "code_is_current (memory_cached_func c) w2"
    by auto
  have x: "execute_func ?c args w = Inr (length (heap w), ?c\<lparr>last_used_mem_cache := False\<rparr>, w2)"
    using um e by (simp add: execute_func_def)
  let ?w' = "snd (deepcopy (length (heap w)) w2)"
  have "entry_of (memory_cached_func c) args ?w' = entry_of (memory_cached_func c) args w2"
    by (rule entry_of_cong) simp
  then have "entry_of (memory_cached_func c) args ?w' = Some v"
    using eff(3) by simp
  moreover have "code_is_current (memory_cached_func c) ?w' = code_is_current (memory_cached_func c) w2"
    by (rule code_is_current_cong) simp_all
  then have "code_is_current (memory_cached_func c) ?w'"
    using eff(4) by simp
  ultimately show ?thesis using Cached_call_enabled [OF en x] eff v by simp
qed

lemma Cached_call_mem_miss_disk_miss:
  assumes inv: "cached_inv c" and en: "is_caching_enabled w"
      and um: "use_mem_cache c" and ud: "use_disk_cache c"
      and ids: "(func_id, args_id) = get_output_identifiers (memory_cached_func c) args"
      and miss: "has_cached_version c ''mem'' func_id args_id w = Inr False"
      and dmiss: "has_cached_version c ''disk'' func_id args_id w = Inr False"
  shows "\<exists>w'. Cached_call c args w
           = Inr (Suc (length (heap w)),
                  (reset_cache_tracing c)\<lparr>last_used_mem_cache := False, last_used_disk_cache := False\<rparr>, w')
       \<and> trace w' = trace w @ [Lookup ''mem'', Lookup ''disk'', CallFunc,
              DumpItem (mf_location (disk_cached_func c)),
              DumpItem (mf_location (memory_cached_func c)), Deepcopy]
       \<and> heap w' = heap w @ [fn_body (func c) args, fn_body (func c) args]
       \<and> entry_of (memory_cached_func c) args w' = Some (fn_body (func c) args)
       \<and> code_is_current (memory_cached_func c) w'"
proof -
  let ?c = "reset_cache_tracing c"
  have inv': "cached_inv ?c" using inv by simp
  have ud': "use_disk_cache ?c" using ud by simp
  have ids': "(func_id, args_id) = get_output_identifiers (memory_cached_func ?c) args"
    using ids by simp
  have miss': "has_cached_version ?c ''mem'' func_id args_id w = Inr False" using miss by simp
  have dmiss': "has_cached_version ?c ''disk'' func_id args_id w = Inr False" using dmiss by simp
  from mem_miss_disk_miss [OF inv' ud' ids' miss' dmiss']
  obtain w2 where
    e: "execute_func_from_mem_cache ?c args w
          = Inr (length (heap w), ?c\<lparr>last_used_mem_cache := False, last_used_disk_cache := False\<rparr>, w2)"
    and eff: "trace w2 = trace w @ [Lookup ''mem'', Lookup ''disk'', CallFunc,
              DumpItem (mf_location (disk_cached_func c)),
              DumpItem (mf_location (memory_cached_func c))]"
      "heap w2 = heap w @ [fn_body (func c) args]"
      "entry_of (memory_cached_func c) args w2 = Some (fn_body (func c) args)"
      "code_is_current (memory_cached_func c) w2"
    by auto
  have x: "execute_func ?c args w
      = Inr (length (heap w), ?c\<lparr>last_used_mem_cache := False, last_used_disk_cache := False\<rparr>, w2)"
    using um e by (simp add: execute_func_def)
  let ?w' = "snd (deepcopy (length (heap w)) w2)"
  have "entry_of (memory_cached_func c) args ?w' = entry_of (memory_cached_func c) args w2"
    by (rule entry_of_cong) simp
  then have "entry_of (memory_cached_func c) args ?w' = Some (fn_body (func c) args)"
    using eff(3) by simp
  moreover have "code_is_current (memory_cached_func c) ?w' = code_is_current (memory_cached_func c) w2"
    by (rule code_is_current_cong) simp_all
  then have "code_is_current (memory_cached_func c) ?w'"
    using eff(4) by simp
  ultimately show ?thesis using Cached_call_enabled [OF en x] eff by simp
qed

lemma Cached_call_mem_miss_no_disk:
  assumes inv: "cached_inv c" and en: "is_caching_enabled w"
      and um: "use_mem_cache c" and ud: "\<not> use_disk_cache c"
      and ids: "(func_id, args_id) = get_output_identifiers (memory_cached_func c) args"
      and miss: "has_cached_version c ''mem'' func_id args_id w = Inr False"
  shows "\<exists>w'. Cached_call c args w
           = Inr (Suc (length (heap w)), (reset_cache_tracing c)\<lparr>last_used_mem_cache := False\<rparr>, w')
       \<and> trace w' = trace w @ [Lookup ''mem'', CallFunc,
              DumpItem (mf_location (memory_cached_func c)),
              DumpItem (mf_location (memory_cached_func c)), Deepcopy]
       \<and> heap w' = heap w @ [fn_body (func c) args, fn_body (func c) args]
       \<and> entry_of (memory_cached_func c) args w' = Some (fn_body (func c) args)
       \<and> code_is_current (memory_cached_func c) w'"
proof -
  let ?c = "reset_cache_tracing c"
  have inv': "cached_inv ?c" using inv by simp
  have ud': "\<not> use_disk_cache ?c" using ud by simp
  have ids': "(func_id, args_id) = get_output_identifiers (memory_cached_func ?c) args"
    using ids by simp
  have miss': "has_cached_version ?c ''mem'' func_id args_id w = Inr False" using miss by simp
  from mem_miss_no_disk [OF inv' ud' ids' miss']
  obtain w2 where
    e: "execute_func_from_mem_cache ?c args w
          = Inr (length (heap w), ?c\<lparr>last_used_mem_cache := False\<rparr>, w2)"
    and eff: "trace w2 = trace w @ [Lookup ''mem'', CallFunc,
              DumpItem (mf_location (memory_cached_func c)),
              DumpItem (mf_location (memory_cached_func c))]"
      "heap w2 = heap w @ [fn_body (func c) args]"
      "entry_of (memory_cached_func c) args w2 = Some (fn_body (func c) args)"
      "code_is_current (memory_cached_func c) w2"
    by auto
  have x: "execute_func ?c args w
      = Inr (length (heap w), ?c\<lparr>last_used_mem_cache := False\<rparr>, w2)"
    using um e by (simp add: execute_func_def)
  let ?w' = "snd (deepcopy (length (heap w)) w2)"
  have "entry_of (memory_cached_func c) args ?w' = entry_of (memory_cached_func c) args w2"
    by (rule entry_of_cong) simp
  then have "entry_of (memory_cached_func c) args ?w' = Some (fn_body (func c) args)"
    using eff(3) by simp
  moreover have "code_is_current (memory_cached_func c) ?w' = code_is_current (memory_cached_func c) w2"
    by (rule code_is_current_cong) simp_all
  then have "code_is_current (memory_cached_func c) ?w'"
    using eff(4) by simp
  ultimately show ?thesis using Cached_call_enabled [OF en x] eff by simp
qed

text \<open>Disk level only.\<close>

lemma Cached_call_disk_hit:
  assumes inv: "cached_inv c" and en: "is_caching_enabled w"
      and um: "\<not> use_mem_cache c" and ud: "use_disk_cache c"
      and ids: "(func_id, args_id) = get_output_identifiers (disk_cached_func c) args"
      and hit: "has_cached_version c ''disk'' func_id args_id w = Inr True"
  shows "\<exists>v w'. Cached_call c args w = Inr (Suc (length (heap w)), reset_cache_tracing c, w')
       \<and> trace w' = trace w @ [Lookup ''disk'', LoadItem (mf_location (disk_cached_func c)), Deepcopy]
       \<and> heap w' = heap w @ [v, v]
       \<and> entry_of (disk_cached_func c) args w = Some v
       \<and> stores w' = stores w \<and> FUNCTION_HASHES w' = FUNCTION_HASHES w"
proof -
  let ?c = "reset_cache_tracing c"
  have inv': "cached_inv ?c" using inv by simp
  have ids': "(func_id, args_id) = get_output_identifiers (disk_cached_func ?c) args"
    using ids by simp
  have hit': "has_cached_version ?c ''disk'' func_id args_id w = Inr True" using hit by simp
  from disk_cache_hit [OF inv' ids' hit']
  obtain v w2 where v: "entry_of (disk_cached_func c) args w = Some v"
    and e: "execute_func_from_disk_cache ?c args w = Inr (length (heap w), ?c, w2)"
    and eff: "trace w2 = trace w @ [Lookup ''disk'', LoadItem (mf_location (disk_cached_func c))]"
      "heap w2 = heap w @ [v]" "stores w2 = stores w" "FUNCTION_HASHES w2 = FUNCTION_HASHES w"
    by auto
  have "execute_func ?c args w = Inr (length (heap w), ?c, w2)"
    using um ud e by (simp add: execute_func_def)
  from Cached_call_enabled [OF en this] eff v show ?thesis by simp
qed

lemma Cached_call_disk_miss:
  assumes inv: "cached_inv c" and en: "is_caching_enabled w"
      and um: "\<not> use_mem_cache c" and ud: "use_disk_cache c"
      and ids: "(func_id, args_id) = get_output_identifiers (disk_cached_func c) args"
      and miss: "has_cached_version c ''disk'' func_id args_id w = Inr False"
  shows "\<exists>w'. Cached_call c args w
           = Inr (Suc (length (heap w)), (reset_cache_tracing c)\<lparr>last_used_disk_cache := False\<rparr>, w')
       \<and> trace w' = trace w @ [Lookup ''disk'', CallFunc,
              DumpItem (mf_location (disk_cached_func c)), Deepcopy]
       \<and> heap w' = heap w @ [fn_body (func c) args, fn_body (func c) args]
       \<and> entry_of (disk_cached_func c) args w' = Some (fn_body (func c) args)
       \<and> code_is_current (disk_cached_func c) w'"
proof -
  let ?c = "reset_cache_tracing c"
  have inv': "cached_inv ?c" using inv by simp
  have ids': "(func_id, args_id) = get_output_identifiers (disk_cached_func ?c) args"
    using ids by simp
  have miss': "has_cached_version ?c ''disk'' func_id args_id w = Inr False" using miss by simp
  from disk_cache_miss [OF inv' ids' miss']
  obtain w2 where
    e: "execute_func_from_disk_cache ?c args w
          = Inr (length (heap w), ?c\<lparr>last_used_disk_cache := False\<rparr>, w2)"
    and eff: "trace w2 = trace w @ [Lookup ''disk'', CallFunc,
              DumpItem (mf_location (disk_cached_func c))]"
      "heap w2 = heap w @ [fn_body (func c) args]"
      "entry_of (disk_cached_func c) args w2 = Some (fn_body (func c) args)"
      "code_is_current (disk_cached_func c) w2"
    by auto
  have x: "execute_func ?c args w
      = Inr (length (heap w), ?c\<lparr>last_used_disk_cache := False\<rparr>, w2)"
    using um ud e by (simp add: execute_func_def)
  let ?w' = "snd (deepcopy (length (heap w)) w2)"
  have "entry_of (disk_cached_func c) args ?w' = entry_of (disk_cached_func c) args w2"
    by (rule entry_of_cong) simp
  then have "entry_of (disk_cached_func c) args ?w' = Some (fn_body (func c) args)"
    using eff(3) by simp
  moreover have "code_is_current (disk_cached_func c) ?w' = code_is_current (disk_cached_func c) w2"
    by (rule code_is_current_cong) simp_all
  then have "code_is_current (disk_cached_func c) ?w'"
    using eff(4) by simp
  ultimately show ?thesis using Cached_call_enabled [OF en x] eff by simp
qed

text \<open>When \<^verbatim>\<open>_has_cached_version\<close> raises, so does the call.\<close>

lemma Cached_call_mem_error:
  assumes "is_caching_enabled w" "use_mem_cache c"
      and "(func_id, args_id) = get_output_identifiers (memory_cached_func c) args"
      and "has_cached_version c ''mem'' func_id args_id w = Inl e"
  shows "Cached_call c args w = Inl e"
proof -
  have "execute_func (reset_cache_tracing c) args w = Inl e"
    using assms(2,4) assms(3) [symmetric]
    by (simp add: execute_func_def execute_func_from_mem_cache_def)
  then show ?thesis by (rule Cached_call_error [OF assms(1)])
qed

lemma Cached_call_disk_error:
  assumes "cached_inv c" "is_caching_enabled w" "use_disk_cache c"
      and "(func_id, args_id) = get_output_identifiers (disk_cached_func c) args"
      and "use_mem_cache c \<longrightarrow> has_cached_version c ''mem'' func_id args_id w = Inr False"
      and "has_cached_version c ''disk'' func_id args_id w = Inl e"
  shows "Cached_call c args w = Inl e"
proof -
  let ?c = "reset_cache_tracing c"
  have same: "get_output_identifiers (memory_cached_func c) args = (func_id, args_id)"
    using assms(1,4) by (simp add: get_output_identifiers_def cached_inv_def)
  have d: "\<And>c' w'. func c' = func c \<Longrightarrow> memory_cached_func c' = memory_cached_func c \<Longrightarrow>
      disk_cached_func c' = disk_cached_func c \<Longrightarrow> stores w' = stores w \<Longrightarrow>
      FUNCTION_HASHES w' = FUNCTION_HASHES w \<Longrightarrow>
      execute_func_from_disk_cache c' args w' = Inl e"
  proof -
    fix c' :: "('a, 'b) cached" and w' :: "'b world"
    assume a: "func c' = func c" "memory_cached_func c' = memory_cached_func c"
      "disk_cached_func c' = disk_cached_func c" "stores w' = stores w"
      "FUNCTION_HASHES w' = FUNCTION_HASHES w"
    have "has_cached_version c' ''disk'' func_id args_id w' = Inl e"
      using has_cached_version_cong [OF a] assms(6) by simp
    then show "execute_func_from_disk_cache c' args w' = Inl e"
      using a(3) assms(4) [symmetric] by (simp add: execute_func_from_disk_cache_def)
  qed
  have "execute_func ?c args w = Inl e"
  proof (cases "use_mem_cache c")
    case True
    then have m: "has_cached_version c ''mem'' func_id args_id w = Inr False" using assms(5) by simp
    have "execute_func_from_disk_cache (?c\<lparr>last_used_mem_cache := False\<rparr>) args
            (log_event (Lookup ''mem'') w) = Inl e"
      by (rule d) simp_all
    then show ?thesis using True m same assms(3)
      by (simp add: execute_func_def execute_func_from_mem_cache_def Let_def)
  next
    case False
    have "execute_func_from_disk_cache ?c args w = Inl e" by (rule d) simp_all
    then show ?thesis using False assms(3) by (simp add: execute_func_def)
  qed
  then show ?thesis by (rule Cached_call_error [OF assms(2)])
qed

lemma get_identifiers_inv:
  assumes "cached_inv c" "cache_type = ''mem'' \<or> cache_type = ''disk''"
  shows "get_identifiers c cache_type args = Inr (fn_identifier (func c), fn_argument_hash (func c) args)"
  using assms by (auto simp: get_output_identifiers_def cached_inv_def)

text \<open>What a call leaves as it was.\<close>

lemma USE_CACHING_kept [simp]:
  "USE_CACHING (snd (new_object v w)) = USE_CACHING w"
  "USE_CACHING (dump_item loc k obj w) = USE_CACHING w"
  "USE_CACHING (write_func_code mf code fl w) = USE_CACHING w"
  "USE_CACHING (snd (check_previous_func_code mf w)) = USE_CACHING w"
  "USE_CACHING (snd (run_func f args w)) = USE_CACHING w"
  "USE_CACHING (snd (deepcopy obj w)) = USE_CACHING w"
  by (auto simp: new_object_def dump_item_def write_func_code_def store_cached_func_code_def
      check_previous_func_code_def mf_clear_def clear_path_def run_func_def deepcopy_def
      log_event_def Let_def split: sum.splits prod.splits)

lemma USE_CACHING_mf_cached_call [simp]:
  "USE_CACHING (snd (mf_cached_call mf args w)) = USE_CACHING w"
  by (simp add: mf_cached_call_def mf_call_def load_item_def Let_def split_beta
      split: option.splits)

lemma same_object_simps [simp]:
  "same_object c c"
  "same_object (c\<lparr>last_used_mem_cache := b\<rparr>) c' = same_object c c'"
  "same_object (c\<lparr>last_used_disk_cache := b\<rparr>) c' = same_object c c'"
  "same_object (reset_cache_tracing c) c' = same_object c c'"
  "same_object c' (c\<lparr>last_used_mem_cache := b\<rparr>) = same_object c' c"
  "same_object c' (c\<lparr>last_used_disk_cache := b\<rparr>) = same_object c' c"
  "same_object c' (reset_cache_tracing c) = same_object c' c"
  by (simp_all add: same_object_def reset_cache_tracing_def)

lemma same_object_trans: "same_object a b \<Longrightarrow> same_object b c \<Longrightarrow> same_object a c"
  by (simp add: same_object_def)

lemma disk_cache_keeps:
  assumes "execute_func_from_disk_cache c args w = Inr (obj, c', w')"
  shows "USE_CACHING w' = USE_CACHING w \<and> same_object c' c"
  using assms
  by (auto simp: execute_func_from_disk_cache_def Let_def split_beta split: sum.splits if_splits)

lemma store_cached_version_keeps:
  "store_cached_version c cache_type func_id args_id obj w = Inr w' \<Longrightarrow> USE_CACHING w' = USE_CACHING w"
  by (auto simp: store_cached_version_def Let_def split: sum.splits)

lemma execute_func_from_mem_cache_miss_eq:
  assumes "get_output_identifiers (memory_cached_func c) args = (func_id, args_id)"
      and "has_cached_version c ''mem'' func_id args_id w = Inr False"
  shows "execute_func_from_mem_cache c args w =
      (case (if use_disk_cache c
             then execute_func_from_disk_cache (c\<lparr>last_used_mem_cache := False\<rparr>) args
                    (log_event (Lookup ''mem'') w)
             else (let (obj, w1) = mf_cached_call (memory_cached_func c) args
                                     (log_event (Lookup ''mem'') w)
                   in Inr (obj, c\<lparr>last_used_mem_cache := False\<rparr>, w1))) of
         Inl e \<Rightarrow> Inl e
       | Inr (obj, c2, w2) \<Rightarrow>
           (case store_cached_version c2 ''mem'' func_id args_id obj w2 of
              Inl e \<Rightarrow> Inl e
            | Inr w3 \<Rightarrow> Inr (obj, c2, w3)))"
  using assms
  by (simp add: execute_func_from_mem_cache_def Let_def split del: if_split cong: if_cong)

lemma mem_cache_miss_result:
  assumes ids: "get_output_identifiers (memory_cached_func c) args = (func_id, args_id)"
      and miss: "has_cached_version c ''mem'' func_id args_id w = Inr False"
      and r: "execute_func_from_mem_cache c args w = Inr (obj, c', w')"
  shows "\<exists>w2. (if use_disk_cache c
               then execute_func_from_disk_cache (c\<lparr>last_used_mem_cache := False\<rparr>) args
                      (log_event (Lookup ''mem'') w)
               else (let (obj, w1) = mf_cached_call (memory_cached_func c) args
                                       (log_event (Lookup ''mem'') w)
                     in Inr (obj, c\<lparr>last_used_mem_cache := False\<rparr>, w1))) = Inr (obj, c', w2)
            \<and> store_cached_version c' ''mem'' func_id args_id obj w2 = Inr w'"
    (is "\<exists>w2. ?L = Inr (obj, c', w2) \<and> _")
proof -
  have eq: "(case ?L of
               Inl e \<Rightarrow> Inl e
             | Inr (obj, c2, w2) \<Rightarrow>
                 (case store_cached_version c2 ''mem'' func_id args_id obj w2 of
                    Inl e \<Rightarrow> Inl e
                  | Inr w3 \<Rightarrow> Inr (obj, c2, w3))) = Inr (obj, c', w')"
    using r unfolding execute_func_from_mem_cache_miss_eq [OF ids miss] .
  obtain o2 c2 w2 where l: "?L = Inr (o2, c2, w2)"
  proof (cases ?L)
    case (Inl e)
    with eq show ?thesis by (simp only: sum.case) simp
  next
    case (Inr x)
    then show ?thesis using that by (cases x) auto
  qed
  have eq2: "(case store_cached_version c2 ''mem'' func_id args_id o2 w2 of
                Inl e \<Rightarrow> Inl e
              | Inr w3 \<Rightarrow> Inr (o2, c2, w3)) = Inr (obj, c', w')"
    using eq unfolding l by simp
  obtain w3 where st: "store_cached_version c2 ''mem'' func_id args_id o2 w2 = Inr w3"
  proof (cases "store_cached_version c2 ''mem'' func_id args_id o2 w2")
    case (Inl e)
    with eq2 show ?thesis by simp
  next
    case (Inr x)
    then show ?thesis using that by simp
  qed
  from eq2 st have "o2 = obj" "c2 = c'" "w3 = w'" by simp_all
  with l st show ?thesis by blast
qed

lemma mem_cache_keeps:
  assumes "execute_func_from_mem_cache c args w = Inr (obj, c', w')"
  shows "USE_CACHING w' = USE_CACHING w \<and> same_object c' c"
proof -
  let ?w0 = "log_event (Lookup ''mem'') w"
  let ?c1 = "c\<lparr>last_used_mem_cache := False\<rparr>"
  obtain func_id args_id where ids: "get_output_identifiers (memory_cached_func c) args = (func_id, args_id)"
    by (cases "get_output_identifiers (memory_cached_func c) args")
  from assms ids obtain hit where hit: "has_cached_version c ''mem'' func_id args_id w = Inr hit"
    by (cases "has_cached_version c ''mem'' func_id args_id w")
      (simp_all add: execute_func_from_mem_cache_def)
  show ?thesis
  proof (cases hit)
    case True
    with assms ids hit have "c' = c" "w' = snd (mf_cached_call (memory_cached_func c) args ?w0)"
      by (auto simp: execute_func_from_mem_cache_def Let_def split_beta)
    then show ?thesis by simp
  next
    case False
    with hit have miss: "has_cached_version c ''mem'' func_id args_id w = Inr False" by simp
    from mem_cache_miss_result [OF ids miss assms]
    obtain w2 where
      l: "(if use_disk_cache c then execute_func_from_disk_cache ?c1 args ?w0
           else (let (obj, w1) = mf_cached_call (memory_cached_func c) args ?w0
                 in Inr (obj, ?c1, w1))) = Inr (obj, c', w2)"
      and st: "store_cached_version c' ''mem'' func_id args_id obj w2 = Inr w'"
      by blast
    have "USE_CACHING w2 = USE_CACHING w \<and> same_object c' c"
    proof (cases "use_disk_cache c")
      case True
      with l have "execute_func_from_disk_cache ?c1 args ?w0 = Inr (obj, c', w2)" by simp
      from disk_cache_keeps [OF this] show ?thesis by simp
    next
      case False
      with l have "c' = ?c1" "w2 = snd (mf_cached_call (memory_cached_func c) args ?w0)"
        by (simp_all add: split_beta)
      then show ?thesis by simp
    qed
    with store_cached_version_keeps [OF st] show ?thesis by simp
  qed
qed

lemma Cached_call_keeps:
  assumes "Cached_call c args w = Inr (obj, c', w')"
  shows "USE_CACHING w' = USE_CACHING w \<and> same_object c' c"
proof (cases "is_caching_enabled w")
  case False
  with assms show ?thesis
    by (auto simp: Cached_call_def Let_def split_beta)
next
  case True
  with assms obtain o2 w2 where
    e: "execute_func (reset_cache_tracing c) args w = Inr (o2, c', w2)"
    and w': "w' = snd (deepcopy o2 w2)"
    by (auto simp: Cached_call_def Let_def split_beta split: sum.splits)
  have "USE_CACHING w2 = USE_CACHING w \<and> same_object c' c"
  proof (cases "use_mem_cache c")
    case True
    with e have "execute_func_from_mem_cache (reset_cache_tracing c) args w = Inr (o2, c', w2)"
      by (simp add: execute_func_def)
    from mem_cache_keeps [OF this] show ?thesis by simp
  next
    case um: False
    show ?thesis
    proof (cases "use_disk_cache c")
      case True
      with um e have "execute_func_from_disk_cache (reset_cache_tracing c) args w = Inr (o2, c', w2)"
        by (simp add: execute_func_def)
      from disk_cache_keeps [OF this] show ?thesis by simp
    next
      case False
      with um e have "c' = reset_cache_tracing c" "w2 = snd (run_func (func c) args w)"
        by (auto simp: execute_func_def split_beta)
      then show ?thesis by simp
    qed
  qed
  with w' show ?thesis by simp
qed

lemma same_object_inv: "same_object c' c \<Longrightarrow> cached_inv c' = cached_inv c"
  by (simp add: same_object_def cached_inv_def)

lemma same_object_remembers: "same_object c' c \<Longrightarrow> remembers c' args w v = remembers c args w v"
  by (simp add: same_object_def remembers_def)

lemma remembers_cong:
  "stores w' = stores w \<Longrightarrow> FUNCTION_HASHES w' = FUNCTION_HASHES w \<Longrightarrow>
     remembers c args w' v = remembers c args w v"
  by (simp add: remembers_def entry_of_def code_is_current_def function_hash_is_current_def)

lemma get_last_cache_accessed_simps:
  "get_last_cache_accessed (c\<lparr>last_used_disk_cache := False, last_used_mem_cache := False\<rparr>) = ''no_cache''"
  "get_last_cache_accessed ((reset_cache_tracing c)\<lparr>last_used_mem_cache := False, last_used_disk_cache := False\<rparr>) = ''no_cache''"
  "use_mem_cache c \<Longrightarrow> get_last_cache_accessed (reset_cache_tracing c) = ''mem''"
  "\<not> use_mem_cache c \<Longrightarrow> use_disk_cache c \<Longrightarrow> get_last_cache_accessed (reset_cache_tracing c) = ''disk''"
  "\<not> use_mem_cache c \<Longrightarrow> \<not> use_disk_cache c \<Longrightarrow> get_last_cache_accessed (reset_cache_tracing c) = ''no_cache''"
  "use_disk_cache c \<Longrightarrow> get_last_cache_accessed ((reset_cache_tracing c)\<lparr>last_used_mem_cache := False\<rparr>) = ''disk''"
  "\<not> use_disk_cache c \<Longrightarrow> get_last_cache_accessed ((reset_cache_tracing c)\<lparr>last_used_mem_cache := False\<rparr>) = ''no_cache''"
  "\<not> use_mem_cache c \<Longrightarrow> get_last_cache_accessed ((reset_cache_tracing c)\<lparr>last_used_disk_cache := False\<rparr>) = ''no_cache''"
  by (simp_all add: get_last_cache_accessed_def reset_cache_tracing_def)

text \<open>The courses a returning call can take, with what it answers afterwards.\<close>

lemma Cached_call_courses:
  assumes inv: "cached_inv c"
      and r: "Cached_call c args w = Inr (obj, c', w')"
  shows "(get_last_cache_accessed c' = ''mem''
           \<and> trace w' = trace w @ [Lookup ''mem'',
                  LoadItem (mf_location (memory_cached_func c)), Deepcopy]
         \<or> get_last_cache_accessed c' = ''disk''
           \<and> (trace w' = trace w @ [Lookup ''mem'', Lookup ''disk'',
                  LoadItem (mf_location (disk_cached_func c)),
                  DumpItem (mf_location (memory_cached_func c)), Deepcopy]
              \<or> trace w' = trace w @ [Lookup ''disk'',
                  LoadItem (mf_location (disk_cached_func c)), Deepcopy])
         \<or> get_last_cache_accessed c' = ''no_cache''
           \<and> (trace w' = trace w @ [CallFunc]
              \<or> trace w' = trace w @ [CallFunc, Deepcopy]
              \<or> trace w' = trace w @ [Lookup ''disk'', CallFunc,
                  DumpItem (mf_location (disk_cached_func c)), Deepcopy]
              \<or> trace w' = trace w @ [Lookup ''mem'', CallFunc,
                  DumpItem (mf_location (memory_cached_func c)),
                  DumpItem (mf_location (memory_cached_func c)), Deepcopy]
              \<or> trace w' = trace w @ [Lookup ''mem'', Lookup ''disk'', CallFunc,
                  DumpItem (mf_location (disk_cached_func c)),
                  DumpItem (mf_location (memory_cached_func c)), Deepcopy]))"
proof -
  obtain func_id args_id
    where m: "(func_id, args_id) = get_output_identifiers (memory_cached_func c) args"
    by (cases "get_output_identifiers (memory_cached_func c) args") simp
  have d: "(func_id, args_id) = get_output_identifiers (disk_cached_func c) args"
    using m inv by (simp add: get_output_identifiers_def cached_inv_def)
  show ?thesis
  proof (cases "is_caching_enabled w")
    case False
    from Cached_call_disabled [OF False, of c args] r show ?thesis
      by (auto simp: get_last_cache_accessed_simps)
  next
    case en: True
    show ?thesis
    proof (cases "use_mem_cache c")
      case um: True
      show ?thesis
      proof (cases "has_cached_version c ''mem'' func_id args_id w")
        case (Inl e)
        from Cached_call_mem_error [OF en um m Inl] r show ?thesis by simp
      next
        case (Inr hit)
        show ?thesis
        proof (cases hit)
          case True
          with Inr have h: "has_cached_version c ''mem'' func_id args_id w = Inr True" by simp
          from Cached_call_mem_hit [OF inv en um m h] r um show ?thesis
            by (auto simp: get_last_cache_accessed_simps)
        next
          case False
          with Inr have h: "has_cached_version c ''mem'' func_id args_id w = Inr False" by simp
          show ?thesis
          proof (cases "use_disk_cache c")
            case ud: True
            show ?thesis
            proof (cases "has_cached_version c ''disk'' func_id args_id w")
              case (Inl e)
              have "Cached_call c args w = Inl e"
                by (rule Cached_call_disk_error [OF inv en ud d _ Inl]) (simp add: h)
              with r show ?thesis by simp
            next
              case (Inr dhit)
              show ?thesis
              proof (cases dhit)
                case True
                with Inr have dh: "has_cached_version c ''disk'' func_id args_id w = Inr True"
                  by simp
                from Cached_call_mem_miss_disk_hit [OF inv en um ud m h dh] r ud show ?thesis
                  by (auto simp: get_last_cache_accessed_simps)
              next
                case False
                with Inr have dh: "has_cached_version c ''disk'' func_id args_id w = Inr False"
                  by simp
                from Cached_call_mem_miss_disk_miss [OF inv en um ud m h dh] r show ?thesis
                  by (auto simp: get_last_cache_accessed_simps)
              qed
            qed
          next
            case ud: False
            from Cached_call_mem_miss_no_disk [OF inv en um ud m h] r ud show ?thesis
              by (auto simp: get_last_cache_accessed_simps)
          qed
        qed
      qed
    next
      case um: False
      show ?thesis
      proof (cases "use_disk_cache c")
        case ud: True
        show ?thesis
        proof (cases "has_cached_version c ''disk'' func_id args_id w")
          case (Inl e)
          have "Cached_call c args w = Inl e"
            by (rule Cached_call_disk_error [OF inv en ud d _ Inl]) (simp add: um)
          with r show ?thesis by simp
        next
          case (Inr dhit)
          show ?thesis
          proof (cases dhit)
            case True
            with Inr have dh: "has_cached_version c ''disk'' func_id args_id w = Inr True"
              by simp
            from Cached_call_disk_hit [OF inv en um ud d dh] r um ud show ?thesis
              by (auto simp: get_last_cache_accessed_simps)
          next
            case False
            with Inr have dh: "has_cached_version c ''disk'' func_id args_id w = Inr False"
              by simp
            from Cached_call_disk_miss [OF inv en um ud d dh] r um show ?thesis
              by (auto simp: get_last_cache_accessed_simps)
          qed
        qed
      next
        case ud: False
        from Cached_call_no_level [OF en um ud, of args] r um ud show ?thesis
          by (auto simp: get_last_cache_accessed_simps)
      qed
    qed
  qed
qed

lemma has_cached_version_True_valid:
  assumes inv: "cached_inv c"
      and ids: "(func_id, args_id) = get_output_identifiers (memory_cached_func c) args"
  shows "has_cached_version c ''mem'' func_id args_id w = Inr True
           \<longleftrightarrow> entry_of (memory_cached_func c) args w \<noteq> None \<and> code_is_current (memory_cached_func c) w"
    and "has_cached_version c ''disk'' func_id args_id w = Inr True
           \<longleftrightarrow> entry_of (disk_cached_func c) args w \<noteq> None \<and> code_is_current (disk_cached_func c) w"
proof -
  have fm: "mf_func (memory_cached_func c) = func c" and fd: "mf_func (disk_cached_func c) = func c"
    using inv by (simp_all add: cached_inv_def)
  have d: "(func_id, args_id) = get_output_identifiers (disk_cached_func c) args"
    using ids fm fd by (simp add: get_output_identifiers_def)
  show "has_cached_version c ''mem'' func_id args_id w = Inr True
           \<longleftrightarrow> entry_of (memory_cached_func c) args w \<noteq> None \<and> code_is_current (memory_cached_func c) w"
    by (rule has_cached_version_True_iff [OF Cached_get_cache_simps(2) fm ids])
  show "has_cached_version c ''disk'' func_id args_id w = Inr True
           \<longleftrightarrow> entry_of (disk_cached_func c) args w \<noteq> None \<and> code_is_current (disk_cached_func c) w"
    by (rule has_cached_version_True_iff [OF Cached_get_cache_simps(1) fd d])
qed

lemma nth_append_pair [simp]:
  "(xs @ [a, b]) ! Suc (length xs) = b" "(xs @ [a, b]) ! length xs = a"
  by (simp_all add: nth_append)

text \<open>After a call with caching enabled, the object remembers the value it returned.\<close>

lemma Cached_call_then_remembers:
  assumes inv: "cached_inv c" and en: "is_caching_enabled w"
      and r: "Cached_call c args w = Inr (obj, c', w')"
  shows "\<exists>v. obj = Suc (length (heap w)) \<and> heap w' = heap w @ [v, v] \<and> remembers c args w' v"
proof -
  obtain func_id args_id
    where m: "(func_id, args_id) = get_output_identifiers (memory_cached_func c) args"
    by (cases "get_output_identifiers (memory_cached_func c) args") simp
  have d: "(func_id, args_id) = get_output_identifiers (disk_cached_func c) args"
    using m inv by (simp add: get_output_identifiers_def cached_inv_def)
  note valid = has_cached_version_True_valid [OF inv m]
  show ?thesis
  proof (cases "use_mem_cache c")
    case um: True
    show ?thesis
    proof (cases "has_cached_version c ''mem'' func_id args_id w")
      case (Inl e)
      from Cached_call_mem_error [OF en um m Inl] r show ?thesis by simp
    next
      case (Inr hit)
      show ?thesis
      proof (cases hit)
        case True
        with Inr have h: "has_cached_version c ''mem'' func_id args_id w = Inr True" by simp
        from Cached_call_mem_hit [OF inv en um m h] r
        obtain v where f: "obj = Suc (length (heap w))" "heap w' = heap w @ [v, v]"
          "entry_of (memory_cached_func c) args w = Some v"
          "stores w' = stores w" "FUNCTION_HASHES w' = FUNCTION_HASHES w"
          by auto
        have "remembers c args w v" using um f(3) h valid(1) by (simp add: remembers_def)
        then have "remembers c args w' v" by (simp add: remembers_cong [OF f(4,5)])
        with f show ?thesis by blast
      next
        case False
        with Inr have h: "has_cached_version c ''mem'' func_id args_id w = Inr False" by simp
        show ?thesis
        proof (cases "use_disk_cache c")
          case ud: True
          show ?thesis
          proof (cases "has_cached_version c ''disk'' func_id args_id w")
            case (Inl e)
            have "Cached_call c args w = Inl e"
              by (rule Cached_call_disk_error [OF inv en ud d _ Inl]) (simp add: h)
            with r show ?thesis by simp
          next
            case (Inr dhit)
            show ?thesis
            proof (cases dhit)
              case True
              with Inr have dh: "has_cached_version c ''disk'' func_id args_id w = Inr True"
                by simp
              from Cached_call_mem_miss_disk_hit [OF inv en um ud m h dh] r um show ?thesis
                by (auto simp: remembers_def)
            next
              case False
              with Inr have dh: "has_cached_version c ''disk'' func_id args_id w = Inr False"
                by simp
              from Cached_call_mem_miss_disk_miss [OF inv en um ud m h dh] r um show ?thesis
                by (auto simp: remembers_def)
            qed
          qed
        next
          case ud: False
          from Cached_call_mem_miss_no_disk [OF inv en um ud m h] r um show ?thesis
            by (auto simp: remembers_def)
        qed
      qed
    qed
  next
    case um: False
    show ?thesis
    proof (cases "use_disk_cache c")
      case ud: True
      show ?thesis
      proof (cases "has_cached_version c ''disk'' func_id args_id w")
        case (Inl e)
        have "Cached_call c args w = Inl e"
          by (rule Cached_call_disk_error [OF inv en ud d _ Inl]) (simp add: um)
        with r show ?thesis by simp
      next
        case (Inr dhit)
        show ?thesis
        proof (cases dhit)
          case True
          with Inr have dh: "has_cached_version c ''disk'' func_id args_id w = Inr True"
            by simp
          from Cached_call_disk_hit [OF inv en um ud d dh] r
          obtain v where f: "obj = Suc (length (heap w))" "heap w' = heap w @ [v, v]"
            "entry_of (disk_cached_func c) args w = Some v"
            "stores w' = stores w" "FUNCTION_HASHES w' = FUNCTION_HASHES w"
            by auto
          have "remembers c args w v" using um ud f(3) dh valid(2) by (simp add: remembers_def)
          then have "remembers c args w' v" by (simp add: remembers_cong [OF f(4,5)])
          with f show ?thesis by blast
        next
          case False
          with Inr have dh: "has_cached_version c ''disk'' func_id args_id w = Inr False"
            by simp
          from Cached_call_disk_miss [OF inv en um ud d dh] r um ud show ?thesis
            by (auto simp: remembers_def)
        qed
      qed
    next
      case ud: False
      from Cached_call_no_level [OF en um ud, of args] r um ud show ?thesis
        by (auto simp: remembers_def)
    qed
  qed
qed

text \<open>A call on an object that remembers a value returns a copy of it.\<close>

lemma remembers_Cached_call:
  assumes inv: "cached_inv c" and en: "is_caching_enabled w"
      and rem: "remembers c args w v"
  shows "\<exists>c' w'. Cached_call c args w = Inr (Suc (length (heap w)), c', w')
       \<and> heap w' = heap w @ [v, v]
       \<and> (use_mem_cache c \<longrightarrow> get_last_cache_accessed c' = ''mem''
            \<and> trace w' = trace w @ [Lookup ''mem'',
                   LoadItem (mf_location (memory_cached_func c)), Deepcopy])
       \<and> (\<not> use_mem_cache c \<longrightarrow> use_disk_cache c \<longrightarrow> get_last_cache_accessed c' = ''disk''
            \<and> trace w' = trace w @ [Lookup ''disk'',
                   LoadItem (mf_location (disk_cached_func c)), Deepcopy])"
proof -
  obtain func_id args_id
    where m: "(func_id, args_id) = get_output_identifiers (memory_cached_func c) args"
    by (cases "get_output_identifiers (memory_cached_func c) args") simp
  have d: "(func_id, args_id) = get_output_identifiers (disk_cached_func c) args"
    using m inv by (simp add: get_output_identifiers_def cached_inv_def)
  note valid = has_cached_version_True_valid [OF inv m]
  show ?thesis
  proof (cases "use_mem_cache c")
    case um: True
    with rem have e: "entry_of (memory_cached_func c) args w = Some v"
      and "code_is_current (memory_cached_func c) w" by (simp_all add: remembers_def)
    then have h: "has_cached_version c ''mem'' func_id args_id w = Inr True"
      using valid(1) by simp
    from Cached_call_mem_hit [OF inv en um m h] e um show ?thesis
      by (auto simp: get_last_cache_accessed_simps)
  next
    case um: False
    show ?thesis
    proof (cases "use_disk_cache c")
      case ud: True
      with um rem have e: "entry_of (disk_cached_func c) args w = Some v"
        and "code_is_current (disk_cached_func c) w" by (simp_all add: remembers_def)
      then have h: "has_cached_version c ''disk'' func_id args_id w = Inr True"
        using valid(2) by simp
      from Cached_call_disk_hit [OF inv en um ud d h] e um ud show ?thesis
        by (auto simp: get_last_cache_accessed_simps)
    next
      case ud: False
      with um rem have v: "v = fn_body (func c) args" by (simp add: remembers_def)
      from Cached_call_no_level [OF en um ud, of args] v um ud show ?thesis by auto
    qed
  qed
qed

lemma Cached_call_runs_once:
  assumes "cached_inv c" and "Cached_call c args w = Inr (obj, c', w')"
  shows "\<exists>new. trace w' = trace w @ new \<and> length (filter (\<lambda>e. e = CallFunc) new) \<le> 1"
  using Cached_call_courses [OF assms] by auto

lemma mutate_sel [simp]:
  "stores (mutate obj x w) = stores w"
  "FUNCTION_HASHES (mutate obj x w) = FUNCTION_HASHES w"
  "USE_CACHING (mutate obj x w) = USE_CACHING w"
  "trace (mutate obj x w) = trace w"
  "length (heap (mutate obj x w)) = length (heap w)"
  by (simp_all add: mutate_def)

text \<open>The state after a call, for the call that follows.\<close>

lemma Cached_call_twice:
  assumes inv: "cached_inv c" and en: "is_caching_enabled w"
      and r: "Cached_call c args w = Inr (obj, c', w')"
      and w'': "stores w'' = stores w'" "FUNCTION_HASHES w'' = FUNCTION_HASHES w'"
        "USE_CACHING w'' = USE_CACHING w'"
  shows "\<exists>obj2 c2 w2. Cached_call c' args w'' = Inr (obj2, c2, w2)
       \<and> heap w2 ! obj2 = heap w' ! obj
       \<and> (use_mem_cache c \<longrightarrow> get_last_cache_accessed c2 = ''mem''
            \<and> trace w2 = trace w'' @ [Lookup ''mem'',
                   LoadItem (mf_location (memory_cached_func c)), Deepcopy])
       \<and> (\<not> use_mem_cache c \<longrightarrow> use_disk_cache c \<longrightarrow> get_last_cache_accessed c2 = ''disk''
            \<and> trace w2 = trace w'' @ [Lookup ''disk'',
                   LoadItem (mf_location (disk_cached_func c)), Deepcopy])"
proof -
  from Cached_call_keeps [OF r] have k: "USE_CACHING w' = USE_CACHING w" "same_object c' c"
    by simp_all
  from Cached_call_then_remembers [OF inv en r] obtain v
    where v: "obj = Suc (length (heap w))" "heap w' = heap w @ [v, v]" "remembers c args w' v"
    by blast
  have inv': "cached_inv c'" using inv same_object_inv [OF k(2)] by simp
  have en'': "is_caching_enabled w''" using en k(1) w''(3) by (simp add: is_caching_enabled_def)
  have "remembers c args w'' v" using v(3) by (simp add: remembers_cong [OF w''(1,2)])
  then have rem: "remembers c' args w'' v" by (simp add: same_object_remembers [OF k(2)])
  have fl: "use_mem_cache c' = use_mem_cache c" "use_disk_cache c' = use_disk_cache c"
    "memory_cached_func c' = memory_cached_func c" "disk_cached_func c' = disk_cached_func c"
    using k(2) by (simp_all add: same_object_def)
  have "heap w' ! obj = v" using v(1,2) by simp
  with remembers_Cached_call [OF inv' en'' rem] fl show ?thesis by auto
qed

lemma mem_miss_written_back:
  assumes inv: "cached_inv c" and en: "is_caching_enabled w" and um: "use_mem_cache c"
      and ids: "(func_id, args_id) = get_output_identifiers (memory_cached_func c) args"
      and miss: "has_cached_version c ''mem'' func_id args_id w = Inr False"
      and r: "Cached_call c args w = Inr (obj, c', w')"
  shows "\<exists>before. trace w' = before @ [DumpItem (mf_location (memory_cached_func c)), Deepcopy]"
proof -
  have d: "(func_id, args_id) = get_output_identifiers (disk_cached_func c) args"
    using ids inv by (simp add: get_output_identifiers_def cached_inv_def)
  show ?thesis
  proof (cases "use_disk_cache c")
    case ud: True
    show ?thesis
    proof (cases "has_cached_version c ''disk'' func_id args_id w")
      case (Inl e)
      have "Cached_call c args w = Inl e"
        by (rule Cached_call_disk_error [OF inv en ud d _ Inl]) (simp add: miss)
      with r show ?thesis by simp
    next
      case (Inr dhit)
      show ?thesis
      proof (cases dhit)
        case True
        with Inr have dh: "has_cached_version c ''disk'' func_id args_id w = Inr True" by simp
        from Cached_call_mem_miss_disk_hit [OF inv en um ud ids miss dh] r show ?thesis by auto
      next
        case False
        with Inr have dh: "has_cached_version c ''disk'' func_id args_id w = Inr False" by simp
        from Cached_call_mem_miss_disk_miss [OF inv en um ud ids miss dh] r show ?thesis by auto
      qed
    qed
  next
    case ud: False
    from Cached_call_mem_miss_no_disk [OF inv en um ud ids miss] r show ?thesis by auto
  qed
qed

lemma Cached_call_ends_with_copy:
  assumes "is_caching_enabled w"
      and "Cached_call c args w = Inr (obj, c', w')"
  shows "\<exists>before. trace w' = before @ [Deepcopy]"
proof -
  from assms obtain o2 w2 where "w' = snd (deepcopy o2 w2)"
    by (auto simp: Cached_call_def Let_def split_beta split: sum.splits)
  then show ?thesis by simp
qed

text \<open>The courses of a call when one level's entry is no valid one.\<close>

lemma disk_invalid_courses:
  assumes inv: "cached_inv c" and en: "is_caching_enabled w"
      and m: "(func_id, args_id) = get_output_identifiers (memory_cached_func c) args"
      and dmiss: "has_cached_version c ''disk'' func_id args_id w = Inr False"
  shows "(use_mem_cache c \<longrightarrow> has_cached_version c ''mem'' func_id args_id w = Inr True \<longrightarrow>
            (\<exists>obj c' w'. Cached_call c args w = Inr (obj, c', w')
               \<and> trace w' = trace w @ [Lookup ''mem'',
                      LoadItem (mf_location (memory_cached_func c)), Deepcopy]))
       \<and> ((use_mem_cache c \<longrightarrow> has_cached_version c ''mem'' func_id args_id w = Inr False) \<longrightarrow>
            (\<exists>obj c' w'. Cached_call c args w = Inr (obj, c', w')
               \<and> (trace w' = trace w @ [Lookup ''mem'', Lookup ''disk'', CallFunc,
                      DumpItem (mf_location (disk_cached_func c)),
                      DumpItem (mf_location (memory_cached_func c)), Deepcopy]
                  \<or> trace w' = trace w @ [Lookup ''mem'', CallFunc,
                      DumpItem (mf_location (memory_cached_func c)),
                      DumpItem (mf_location (memory_cached_func c)), Deepcopy]
                  \<or> trace w' = trace w @ [Lookup ''disk'', CallFunc,
                      DumpItem (mf_location (disk_cached_func c)), Deepcopy]
                  \<or> trace w' = trace w @ [CallFunc, Deepcopy])))"
proof (intro conjI impI)
  assume um: "use_mem_cache c" and h: "has_cached_version c ''mem'' func_id args_id w = Inr True"
  from Cached_call_mem_hit [OF inv en um m h]
  show "\<exists>obj c' w'. Cached_call c args w = Inr (obj, c', w')
               \<and> trace w' = trace w @ [Lookup ''mem'',
                      LoadItem (mf_location (memory_cached_func c)), Deepcopy]"
    by blast
next
  assume mh: "use_mem_cache c \<longrightarrow> has_cached_version c ''mem'' func_id args_id w = Inr False"
  have d: "(func_id, args_id) = get_output_identifiers (disk_cached_func c) args"
    using m inv by (simp add: get_output_identifiers_def cached_inv_def)
  show "\<exists>obj c' w'. Cached_call c args w = Inr (obj, c', w')
               \<and> (trace w' = trace w @ [Lookup ''mem'', Lookup ''disk'', CallFunc,
                      DumpItem (mf_location (disk_cached_func c)),
                      DumpItem (mf_location (memory_cached_func c)), Deepcopy]
                  \<or> trace w' = trace w @ [Lookup ''mem'', CallFunc,
                      DumpItem (mf_location (memory_cached_func c)),
                      DumpItem (mf_location (memory_cached_func c)), Deepcopy]
                  \<or> trace w' = trace w @ [Lookup ''disk'', CallFunc,
                      DumpItem (mf_location (disk_cached_func c)), Deepcopy]
                  \<or> trace w' = trace w @ [CallFunc, Deepcopy])"
  proof (cases "use_mem_cache c")
    case um: True
    with mh have h: "has_cached_version c ''mem'' func_id args_id w = Inr False" by simp
    show ?thesis
    proof (cases "use_disk_cache c")
      case True
      from Cached_call_mem_miss_disk_miss [OF inv en um True m h dmiss] show ?thesis by blast
    next
      case False
      from Cached_call_mem_miss_no_disk [OF inv en um False m h] show ?thesis by blast
    qed
  next
    case um: False
    show ?thesis
    proof (cases "use_disk_cache c")
      case True
      from Cached_call_disk_miss [OF inv en um True d dmiss] show ?thesis by blast
    next
      case False
      from Cached_call_no_level [OF en um False, of args] show ?thesis by blast
    qed
  qed
qed

lemma mem_invalid_courses:
  assumes inv: "cached_inv c" and en: "is_caching_enabled w"
      and m: "(func_id, args_id) = get_output_identifiers (memory_cached_func c) args"
      and miss: "has_cached_version c ''mem'' func_id args_id w = Inr False"
  shows "(use_disk_cache c \<longrightarrow> has_cached_version c ''disk'' func_id args_id w = Inr True \<longrightarrow>
            (\<exists>obj c' w'. Cached_call c args w = Inr (obj, c', w')
               \<and> (trace w' = trace w @ [Lookup ''mem'', Lookup ''disk'',
                      LoadItem (mf_location (disk_cached_func c)),
                      DumpItem (mf_location (memory_cached_func c)), Deepcopy]
                  \<or> trace w' = trace w @ [Lookup ''disk'',
                      LoadItem (mf_location (disk_cached_func c)), Deepcopy])))
       \<and> ((use_disk_cache c \<longrightarrow> has_cached_version c ''disk'' func_id args_id w = Inr False) \<longrightarrow>
            (\<exists>obj c' w'. Cached_call c args w = Inr (obj, c', w')
               \<and> (trace w' = trace w @ [Lookup ''mem'', Lookup ''disk'', CallFunc,
                      DumpItem (mf_location (disk_cached_func c)),
                      DumpItem (mf_location (memory_cached_func c)), Deepcopy]
                  \<or> trace w' = trace w @ [Lookup ''mem'', CallFunc,
                      DumpItem (mf_location (memory_cached_func c)),
                      DumpItem (mf_location (memory_cached_func c)), Deepcopy]
                  \<or> trace w' = trace w @ [Lookup ''disk'', CallFunc,
                      DumpItem (mf_location (disk_cached_func c)), Deepcopy]
                  \<or> trace w' = trace w @ [CallFunc, Deepcopy])))"
proof (intro conjI impI)
  have d: "(func_id, args_id) = get_output_identifiers (disk_cached_func c) args"
    using m inv by (simp add: get_output_identifiers_def cached_inv_def)
  {
    assume ud: "use_disk_cache c" and dh: "has_cached_version c ''disk'' func_id args_id w = Inr True"
    show "\<exists>obj c' w'. Cached_call c args w = Inr (obj, c', w')
               \<and> (trace w' = trace w @ [Lookup ''mem'', Lookup ''disk'',
                      LoadItem (mf_location (disk_cached_func c)),
                      DumpItem (mf_location (memory_cached_func c)), Deepcopy]
                  \<or> trace w' = trace w @ [Lookup ''disk'',
                      LoadItem (mf_location (disk_cached_func c)), Deepcopy])"
    proof (cases "use_mem_cache c")
      case True
      from Cached_call_mem_miss_disk_hit [OF inv en True ud m miss dh] show ?thesis by blast
    next
      case False
      from Cached_call_disk_hit [OF inv en False ud d dh] show ?thesis by blast
    qed
  }
  {
    assume dm: "use_disk_cache c \<longrightarrow> has_cached_version c ''disk'' func_id args_id w = Inr False"
    show "\<exists>obj c' w'. Cached_call c args w = Inr (obj, c', w')
               \<and> (trace w' = trace w @ [Lookup ''mem'', Lookup ''disk'', CallFunc,
                      DumpItem (mf_location (disk_cached_func c)),
                      DumpItem (mf_location (memory_cached_func c)), Deepcopy]
                  \<or> trace w' = trace w @ [Lookup ''mem'', CallFunc,
                      DumpItem (mf_location (memory_cached_func c)),
                      DumpItem (mf_location (memory_cached_func c)), Deepcopy]
                  \<or> trace w' = trace w @ [Lookup ''disk'', CallFunc,
                      DumpItem (mf_location (disk_cached_func c)), Deepcopy]
                  \<or> trace w' = trace w @ [CallFunc, Deepcopy])"
    proof (cases "use_disk_cache c")
      case ud: True
      with dm have dh: "has_cached_version c ''disk'' func_id args_id w = Inr False" by simp
      show ?thesis
      proof (cases "use_mem_cache c")
        case True
        from Cached_call_mem_miss_disk_miss [OF inv en True ud m miss dh] show ?thesis by blast
      next
        case False
        from Cached_call_disk_miss [OF inv en False ud d dh] show ?thesis by blast
      qed
    next
      case ud: False
      show ?thesis
      proof (cases "use_mem_cache c")
        case True
        from Cached_call_mem_miss_no_disk [OF inv en True ud m miss] show ?thesis by blast
      next
        case False
        from Cached_call_no_level [OF en False ud, of args] show ?thesis by blast
      qed
    qed
  }
qed

subsection \<open>The concrete inputs, evaluated\<close>

lemma cached_count_inv: "cached_inv (cached_count um ud)"
  by (simp add: cached_inv_def cached_count_def)

lemmas example_defs = cached_count_def count_chars_def world0_def world1_def world2_def
  disk0_def mem0_def empty_store_def disk_store1_def

lemma has_cached_version_world1:
  "has_cached_version (cached_count um ud) cache_type ''lib/count_chars'' ''abc'' world1 =
     (if cache_type = ''mem'' \<or> cache_type = ''disk'' then Inr False else Inl AssertionError)"
  by (simp add: has_cached_version_def Cached_get_cache_def contains_item_def example_defs)

lemma has_cached_version_world2:
  "has_cached_version (cached_count um ud) ''mem'' ''lib/count_chars'' ''abc'' world2 = Inr False"
  "has_cached_version (cached_count um ud) ''disk'' ''lib/count_chars'' ''abc'' world2 = Inr True"
  by (simp_all add: has_cached_version_def Cached_get_cache_def contains_item_def example_defs
      function_hash_is_current_def get_cached_func_code_def)

lemma example_facts:
  "get_output_identifiers (memory_cached_func (cached_count um ud)) ''abc'' = (''lib/count_chars'', ''abc'')"
  "get_output_identifiers (disk_cached_func (cached_count um ud)) ''abc'' = (''lib/count_chars'', ''abc'')"
  "use_mem_cache (cached_count um ud) = um" "use_disk_cache (cached_count um ud) = ud"
  "func (cached_count um ud) = count_chars"
  "mf_location (memory_cached_func (cached_count um ud)) = ''/mnt/tmpfs/tmp.joblib.mem''"
  "mf_location (disk_cached_func (cached_count um ud)) = ''/repo/tmp.joblib.disk''"
  "is_caching_enabled world1" "is_caching_enabled world2"
  "trace world1 = []" "trace world2 = []" "heap world1 = []" "heap world2 = []"
  by (simp_all add: get_output_identifiers_def is_caching_enabled_def example_defs)

lemma first_call_world1:
  "\<exists>c' w'. Cached_call (cached_count True True) ''abc'' world1 = Inr (Suc 0, c', w')
      \<and> heap w' = [3, 3]
      \<and> trace w' = [Lookup ''mem'', Lookup ''disk'', CallFunc,
            DumpItem ''/repo/tmp.joblib.disk'', DumpItem ''/mnt/tmpfs/tmp.joblib.mem'', Deepcopy]"
proof -
  let ?c = "cached_count True True"
  have ids: "(''lib/count_chars'', ''abc'') = get_output_identifiers (memory_cached_func ?c) ''abc''"
    by (simp add: example_facts)
  have h: "has_cached_version ?c ''mem'' ''lib/count_chars'' ''abc'' world1 = Inr False"
    "has_cached_version ?c ''disk'' ''lib/count_chars'' ''abc'' world1 = Inr False"
    by (simp_all add: has_cached_version_world1)
  from Cached_call_mem_miss_disk_miss [OF cached_count_inv example_facts(8) _ _ ids h]
  show ?thesis by (auto simp: example_facts count_chars_def)
qed

lemma has_cached_version_world3:
  "has_cached_version (cached_count um ud) ''mem'' ''lib/count_chars'' ''abc'' world3 = Inr False"
  "has_cached_version (cached_count um ud) ''disk'' ''lib/count_chars'' ''abc'' world3 = Inr True"
  by (simp_all add: has_cached_version_def Cached_get_cache_def contains_item_def example_defs
      world3_def mem_store_stale_def function_hash_is_current_def get_cached_func_code_def)

lemma world3_facts:
  "is_caching_enabled world3" "trace world3 = []" "heap world3 = []"
  "contains_item ''/mnt/tmpfs/tmp.joblib.mem'' (''lib/count_chars'', ''abc'') world3"
  "\<not> function_hash_is_current count_chars h world3"
  "get_cached_func_code ''/mnt/tmpfs/tmp.joblib.mem'' ''lib/count_chars'' world3
     = Inr (''def count_chars(s): return 7'', 3)"
  "fn_source count_chars = ''def count_chars(s): return len(s)''"
  by (simp_all add: is_caching_enabled_def contains_item_def example_defs
      world3_def mem_store_stale_def function_hash_is_current_def get_cached_func_code_def)

lemma call_world3:
  "\<exists>c' w'. Cached_call (cached_count True True) ''abc'' world3 = Inr (Suc 0, c', w')
      \<and> heap w' = [3, 3]
      \<and> trace w' = [Lookup ''mem'', Lookup ''disk'', LoadItem ''/repo/tmp.joblib.disk'',
            DumpItem ''/mnt/tmpfs/tmp.joblib.mem'', Deepcopy]"
proof -
  let ?c = "cached_count True True"
  have ids: "(''lib/count_chars'', ''abc'') = get_output_identifiers (memory_cached_func ?c) ''abc''"
    by (simp add: example_facts)
  have e: "entry_of (disk_cached_func ?c) ''abc'' world3 = Some 3"
    by (simp add: entry_of_def get_output_identifiers_def example_defs world3_def disk_store1_def)
  from Cached_call_mem_miss_disk_hit [OF cached_count_inv world3_facts(1) _ _ ids
      has_cached_version_world3]
  show ?thesis using e by (auto simp: example_facts world3_facts)
qed

lemma has_cached_version_world4:
  "has_cached_version (cached_count um ud) ''mem'' ''lib/count_chars'' ''abc'' world4 = Inr True"
  "has_cached_version (cached_count um ud) ''disk'' ''lib/count_chars'' ''abc'' world4 = Inr False"
  by (simp_all add: has_cached_version_def Cached_get_cache_def contains_item_def example_defs
      world4_def mem_store_stale_def disk_store1_def function_hash_is_current_def
      get_cached_func_code_def)

lemma world4_facts:
  "is_caching_enabled world4" "trace world4 = []" "heap world4 = []"
  "contains_item ''/repo/tmp.joblib.disk'' (''lib/count_chars'', ''abc'') world4"
  "\<not> function_hash_is_current count_chars h world4"
  "get_cached_func_code ''/repo/tmp.joblib.disk'' ''lib/count_chars'' world4
     = Inr (''def count_chars(s): return 7'', 3)"
  by (simp_all add: is_caching_enabled_def contains_item_def example_defs
      world4_def mem_store_stale_def function_hash_is_current_def get_cached_func_code_def)

subsection \<open>The global caches\<close>

lemmas get_cache_defs = get_cache_def get_global_cache_def set_global_cache_def
  get_cache_path_def get_cache_name_def check_valid_cache_type_def joblib_Memory_def Let_def

lemma get_cache_None_unset:
  assumes "cache_type = ''mem'' \<or> cache_type = ''disk''"
      and "get_global_cache cache_type w = Inr None"
  shows "\<exists>m w1. get_cache cache_type None w = Inr (m, w1)
           \<and> memory_oid m = next_oid w
           \<and> get_global_cache cache_type w1 = Inr (Some m)"
  using assms
  by (auto simp: get_cache_defs split: sum.splits option.splits if_splits)

lemma get_cache_None_again:
  assumes "get_cache cache_type None w = Inr (m, w1)"
  shows "get_cache cache_type None w1 = Inr (m, w1)"
  using assms
  by (auto simp: get_cache_defs split: sum.splits option.splits if_splits)

lemma get_cache_tag:
  assumes "get_cache cache_type (Some t) w = Inr (m, w1)"
  shows "memory_oid m = next_oid w \<and> next_oid w1 = Suc (next_oid w)
       \<and> MEMORY_CACHE w1 = MEMORY_CACHE w \<and> DISK_CACHE w1 = DISK_CACHE w"
  using assms
  by (auto simp: get_cache_defs split: sum.splits option.splits if_splits)

lemma Cached_init_None_shares:
  assumes "Cached_init f um ud vb None w = Inr (c, w1)"
      and "Cached_init g um' ud' vb' None w1 = Inr (c', w2)"
  shows "memory_cache c' = memory_cache c \<and> disk_cache c' = disk_cache c"
  using assms
  by (auto simp: Cached_init_def get_cache_defs split: sum.splits option.splits if_splits)

lemma Cached_init_world0:
  "Cached_init count_chars use_mem use_disk False None world0 = Inr (cached_count use_mem use_disk, world1)"
  by (simp add: Cached_init_def get_cache_defs world0_def world1_def cached_count_def mem0_def
        disk0_def Memory_cache_def MEMORY_TMPFS_PATH_def os_path_join_def)

lemma Cached_init_world1:
  "Cached_init count_chars use_mem use_disk False None world1 = Inr (cached_count use_mem use_disk, world1)"
  by (simp add: Cached_init_def get_cache_defs world0_def world1_def cached_count_def mem0_def
        disk0_def Memory_cache_def MEMORY_TMPFS_PATH_def os_path_join_def)

lemma get_cache_tag_world1:
  "get_cache ''disk'' (Some ''x'') world1 =
     Inr (\<lparr>memory_oid = 2, location = ''/repo/tmp.joblib.disk.x''\<rparr>, world1\<lparr>next_oid := 3\<rparr>)"
  by (simp add: get_cache_defs world0_def world1_def MEMORY_TMPFS_PATH_def os_path_join_def)

lemma get_cache_tag_world1_again:
  "get_cache ''disk'' (Some ''x'') (world1\<lparr>next_oid := 3\<rparr>) =
     Inr (\<lparr>memory_oid = 3, location = ''/repo/tmp.joblib.disk.x''\<rparr>, world1\<lparr>next_oid := 4\<rparr>)"
  by (simp add: get_cache_defs world0_def world1_def MEMORY_TMPFS_PATH_def os_path_join_def)

text \<open>
  Claim C7. \<^verbatim>\<open>get_cache(cache_type, None)\<close> is a singleton per process and type:
  when the global of that type is unset, the call creates a new \<^verbatim>\<open>joblib.Memory\<close>
  object and installs it as the global; whatever a call with tag \<^verbatim>\<open>None\<close>
  returned, the next such call returns the same object and changes nothing; hence two
  \<^verbatim>\<open>Cached\<close> objects built with tag \<^verbatim>\<open>None\<close> hold the same memory
  backend and the same disk backend. With a tag, each call builds a new object (two
  calls in a row give two different objects) and leaves both globals as they were.
\<close>

theorem get_cache_global_singleton:
  "(cache_type = ''mem'' \<or> cache_type = ''disk'' \<longrightarrow>
      get_global_cache cache_type w = Inr None \<longrightarrow>
      (\<exists>m w1. get_cache cache_type None w = Inr (m, w1)
          \<and> memory_oid m = next_oid w
          \<and> get_global_cache cache_type w1 = Inr (Some m)))
   \<and> (get_cache cache_type None w = Inr (m, w1) \<longrightarrow>
        get_cache cache_type None w1 = Inr (m, w1))
   \<and> (Cached_init f um ud vb None w = Inr (c, w1) \<longrightarrow>
        Cached_init g um' ud' vb' None w1 = Inr (c', w2) \<longrightarrow>
        memory_cache c' = memory_cache c \<and> disk_cache c' = disk_cache c)
   \<and> (get_cache cache_type (Some t) w = Inr (m, w1) \<longrightarrow>
        memory_oid m = next_oid w
        \<and> MEMORY_CACHE w1 = MEMORY_CACHE w \<and> DISK_CACHE w1 = DISK_CACHE w
        \<and> (get_cache cache_type (Some t) w1 = Inr (m', w2) \<longrightarrow> memory_oid m' \<noteq> memory_oid m))"
proof (intro conjI impI)
  assume "cache_type = ''mem'' \<or> cache_type = ''disk''"
    and "get_global_cache cache_type w = Inr None"
  then show "\<exists>m w1. get_cache cache_type None w = Inr (m, w1)
          \<and> memory_oid m = next_oid w
          \<and> get_global_cache cache_type w1 = Inr (Some m)"
    by (rule get_cache_None_unset)
next
  assume "get_cache cache_type None w = Inr (m, w1)"
  then show "get_cache cache_type None w1 = Inr (m, w1)"
    by (rule get_cache_None_again)
next
  assume a: "Cached_init f um ud vb None w = Inr (c, w1)"
    "Cached_init g um' ud' vb' None w1 = Inr (c', w2)"
  from Cached_init_None_shares [OF a] show "memory_cache c' = memory_cache c" by simp
  from Cached_init_None_shares [OF a] show "disk_cache c' = disk_cache c" by simp
next
  assume a: "get_cache cache_type (Some t) w = Inr (m, w1)"
  from get_cache_tag [OF a] show "memory_oid m = next_oid w" by simp
  from get_cache_tag [OF a] show "MEMORY_CACHE w1 = MEMORY_CACHE w" by simp
  from get_cache_tag [OF a] show "DISK_CACHE w1 = DISK_CACHE w" by simp
  assume b: "get_cache cache_type (Some t) w1 = Inr (m', w2)"
  from get_cache_tag [OF a] get_cache_tag [OF b] show "memory_oid m' \<noteq> memory_oid m" by simp
qed

theorem get_cache_global_singleton_witness:
  "get_global_cache ''mem'' world0 = Inr None
   \<and> (\<exists>m w1. get_cache ''mem'' None world0 = Inr (m, w1)
          \<and> memory_oid m = next_oid world0
          \<and> get_global_cache ''mem'' w1 = Inr (Some m))
   \<and> Cached_init count_chars True True False None world0 = Inr (cached_count True True, world1)
   \<and> Cached_init count_chars False True False None world1 = Inr (cached_count False True, world1)
   \<and> memory_cache (cached_count False True) = memory_cache (cached_count True True)
   \<and> disk_cache (cached_count False True) = disk_cache (cached_count True True)
   \<and> get_cache ''disk'' (Some ''x'') world1
        = Inr (\<lparr>memory_oid = 2, location = ''/repo/tmp.joblib.disk.x''\<rparr>, world1\<lparr>next_oid := 3\<rparr>)
   \<and> MEMORY_CACHE (world1\<lparr>next_oid := 3\<rparr>) = MEMORY_CACHE world1
   \<and> DISK_CACHE (world1\<lparr>next_oid := 3\<rparr>) = DISK_CACHE world1
   \<and> memory_oid \<lparr>memory_oid = 3, location = ''/repo/tmp.joblib.disk.x''\<rparr>
        \<noteq> memory_oid \<lparr>memory_oid = 2, location = ''/repo/tmp.joblib.disk.x''\<rparr>"
proof -
  have g: "get_global_cache ''mem'' world0 = Inr None"
    by (simp add: get_global_cache_def check_valid_cache_type_def world0_def)
  have first: "\<exists>m w1. get_cache ''mem'' None world0 = Inr (m, w1)
          \<and> memory_oid m = next_oid world0
          \<and> get_global_cache ''mem'' w1 = Inr (Some m)"
    using get_cache_global_singleton [where cache_type = "''mem''" and w = world0, THEN conjunct1] g
    by simp
  have shared: "memory_cache (cached_count False True) = memory_cache (cached_count True True)
      \<and> disk_cache (cached_count False True) = disk_cache (cached_count True True)"
    using get_cache_global_singleton [where w = world0 and ?w1.0 = world1 and ?w2.0 = world1
        and f = count_chars and g = count_chars and um = True and ud = True and vb = False
        and um' = False and ud' = True and vb' = False
        and c = "cached_count True True" and c' = "cached_count False True",
        THEN conjunct2, THEN conjunct2, THEN conjunct1]
      Cached_init_world0 Cached_init_world1
    by simp
  have tagged: "MEMORY_CACHE (world1\<lparr>next_oid := 3\<rparr>) = MEMORY_CACHE world1
      \<and> DISK_CACHE (world1\<lparr>next_oid := 3\<rparr>) = DISK_CACHE world1
      \<and> memory_oid \<lparr>memory_oid = 3, location = ''/repo/tmp.joblib.disk.x''\<rparr>
        \<noteq> memory_oid \<lparr>memory_oid = 2, location = ''/repo/tmp.joblib.disk.x''\<rparr>"
    using get_cache_global_singleton [where cache_type = "''disk''" and t = "''x''"
        and w = world1 and ?w1.0 = "world1\<lparr>next_oid := 3\<rparr>" and ?w2.0 = "world1\<lparr>next_oid := 4\<rparr>"
        and m = "\<lparr>memory_oid = 2, location = ''/repo/tmp.joblib.disk.x''\<rparr>"
        and m' = "\<lparr>memory_oid = 3, location = ''/repo/tmp.joblib.disk.x''\<rparr>",
        THEN conjunct2, THEN conjunct2, THEN conjunct2]
      get_cache_tag_world1 get_cache_tag_world1_again
    by simp
  from g first shared tagged Cached_init_world0 Cached_init_world1 get_cache_tag_world1
  show ?thesis by simp
qed

subsection \<open>Order of the lookups\<close>

text \<open>
  Claim C1. With both cache levels in use and caching enabled, a call asks the memory
  cache first. If \<^verbatim>\<open>_has_cached_version("mem", ...)\<close> holds, the value is loaded
  from the memory store and the disk cache is not asked. Otherwise the disk cache is
  asked: if it holds a valid entry the value is loaded from the disk store and stored
  into the memory store, and only when neither holds one does the wrapped function run,
  its value being stored in both. Every call that returns follows one of these three
  courses; a call fails only when \<^verbatim>\<open>_has_cached_version\<close> fails.
\<close>

theorem Cached_call_lookup_order:
  assumes inv: "cached_inv c" and en: "is_caching_enabled w"
      and um: "use_mem_cache c" and ud: "use_disk_cache c"
      and ids: "get_identifiers c ''mem'' args = Inr (func_id, args_id)"
  shows "(\<exists>e. (has_cached_version c ''mem'' func_id args_id w = Inl e
              \<or> has_cached_version c ''mem'' func_id args_id w = Inr False
                \<and> has_cached_version c ''disk'' func_id args_id w = Inl e)
            \<and> Cached_call c args w = Inl e)
       \<or> (\<exists>obj c' w'. Cached_call c args w = Inr (obj, c', w')
            \<and> (has_cached_version c ''mem'' func_id args_id w = Inr True
                 \<and> trace w' = trace w @ [Lookup ''mem'',
                        LoadItem (mf_location (memory_cached_func c)), Deepcopy]
               \<or> has_cached_version c ''mem'' func_id args_id w = Inr False
                 \<and> has_cached_version c ''disk'' func_id args_id w = Inr True
                 \<and> trace w' = trace w @ [Lookup ''mem'', Lookup ''disk'',
                        LoadItem (mf_location (disk_cached_func c)),
                        DumpItem (mf_location (memory_cached_func c)), Deepcopy]
               \<or> has_cached_version c ''mem'' func_id args_id w = Inr False
                 \<and> has_cached_version c ''disk'' func_id args_id w = Inr False
                 \<and> trace w' = trace w @ [Lookup ''mem'', Lookup ''disk'', CallFunc,
                        DumpItem (mf_location (disk_cached_func c)),
                        DumpItem (mf_location (memory_cached_func c)), Deepcopy]))"
proof -
  have m: "(func_id, args_id) = get_output_identifiers (memory_cached_func c) args"
    using ids by simp
  have d: "(func_id, args_id) = get_output_identifiers (disk_cached_func c) args"
    using m inv by (simp add: get_output_identifiers_def cached_inv_def)
  show ?thesis
  proof (cases "has_cached_version c ''mem'' func_id args_id w")
    case (Inl e)
    with Cached_call_mem_error [OF en um m Inl] show ?thesis by blast
  next
    case (Inr hit)
    show ?thesis
    proof (cases hit)
      case True
      with Inr have h: "has_cached_version c ''mem'' func_id args_id w = Inr True" by simp
      from Cached_call_mem_hit [OF inv en um m h] h show ?thesis by blast
    next
      case False
      with Inr have h: "has_cached_version c ''mem'' func_id args_id w = Inr False" by simp
      show ?thesis
      proof (cases "has_cached_version c ''disk'' func_id args_id w")
        case (Inl e)
        have "Cached_call c args w = Inl e"
          by (rule Cached_call_disk_error [OF inv en ud d _ Inl]) (simp add: h)
        with h Inl show ?thesis by blast
      next
        case (Inr dhit)
        show ?thesis
        proof (cases dhit)
          case True
          with Inr have dh: "has_cached_version c ''disk'' func_id args_id w = Inr True" by simp
          from Cached_call_mem_miss_disk_hit [OF inv en um ud m h dh] h dh show ?thesis by blast
        next
          case False
          with Inr have dh: "has_cached_version c ''disk'' func_id args_id w = Inr False" by simp
          from Cached_call_mem_miss_disk_miss [OF inv en um ud m h dh] h dh show ?thesis by blast
        qed
      qed
    qed
  qed
qed

theorem Cached_call_lookup_order_witness:
  "(\<exists>obj c' w'. Cached_call (cached_count True True) ''abc'' world1 = Inr (obj, c', w')
      \<and> trace w' = [Lookup ''mem'', Lookup ''disk'', CallFunc,
            DumpItem ''/repo/tmp.joblib.disk'', DumpItem ''/mnt/tmpfs/tmp.joblib.mem'', Deepcopy])
   \<and> (\<exists>obj c' w'. Cached_call (cached_count True True) ''abc'' world2 = Inr (obj, c', w')
      \<and> trace w' = [Lookup ''mem'', Lookup ''disk'', LoadItem ''/repo/tmp.joblib.disk'',
            DumpItem ''/mnt/tmpfs/tmp.joblib.mem'', Deepcopy])"
proof -
  have ids: "get_identifiers (cached_count True True) ''mem'' ''abc'' = Inr (''lib/count_chars'', ''abc'')"
    by (simp add: get_output_identifiers_def example_defs)
  have fl: "use_mem_cache (cached_count True True)" "use_disk_cache (cached_count True True)"
    by (simp_all add: cached_count_def)
  have en: "is_caching_enabled world1" "is_caching_enabled world2"
    by (simp_all add: is_caching_enabled_def example_defs)
  have loc: "mf_location (memory_cached_func (cached_count True True)) = ''/mnt/tmpfs/tmp.joblib.mem''"
    "mf_location (disk_cached_func (cached_count True True)) = ''/repo/tmp.joblib.disk''"
    by (simp_all add: example_defs)
  have tr: "trace world1 = []" "trace world2 = []" by (simp_all add: example_defs)
  have a: "\<exists>obj c' w'. Cached_call (cached_count True True) ''abc'' world1 = Inr (obj, c', w')
      \<and> trace w' = [Lookup ''mem'', Lookup ''disk'', CallFunc,
            DumpItem ''/repo/tmp.joblib.disk'', DumpItem ''/mnt/tmpfs/tmp.joblib.mem'', Deepcopy]"
    using Cached_call_lookup_order [OF cached_count_inv en(1) fl ids]
    by (simp add: has_cached_version_world1 loc tr)
  have b: "\<exists>obj c' w'. Cached_call (cached_count True True) ''abc'' world2 = Inr (obj, c', w')
      \<and> trace w' = [Lookup ''mem'', Lookup ''disk'', LoadItem ''/repo/tmp.joblib.disk'',
            DumpItem ''/mnt/tmpfs/tmp.joblib.mem'', Deepcopy]"
    using Cached_call_lookup_order [OF cached_count_inv en(2) fl ids]
    by (simp add: has_cached_version_world2 loc tr)
  from a b show ?thesis by simp
qed

subsection \<open>Entries stored under another source\<close>

text \<open>
  Claim C2, as the code has it. Let a cache (memory or disk) contain an item for the
  call's digests. If joblib's table does not hold the function's present hash and the
  source stored in that cache differs from the function's present source,
  \<^verbatim>\<open>_has_cached_version\<close> returns False for that cache, so that entry is not
  served. What the call then does follows the order of the lookups. With caching
  disabled the function runs. With caching enabled and the stale entry in the disk cache:
  if the memory level is in use and holds a valid entry, that entry is served from memory
  and the disk cache is not looked at; if the memory level is off or misses, the function
  runs again. With the stale entry in the memory cache: if the disk level is in use and
  holds a valid entry, that entry is loaded from disk; if the disk level is off or misses,
  the function runs again. If the stored source is the present source,
  \<^verbatim>\<open>_has_cached_version\<close> returns True.
\<close>

theorem has_cached_version_detects_stale_source:
  assumes inv: "cached_inv c"
      and ids: "get_identifiers c cache_type args = Inr (func_id, args_id)"
      and cache: "Cached_get_cache c cache_type = Inr cache"
      and has: "contains_item (mf_location cache) (func_id, args_id) w"
  shows "(\<not> function_hash_is_current (func c) (hash_func cache) w \<longrightarrow>
            get_cached_func_code (mf_location cache) func_id w = Inr (old_func_code, first_line) \<longrightarrow>
            old_func_code \<noteq> fn_source (func c) \<longrightarrow>
              has_cached_version c cache_type func_id args_id w = Inr False
            \<and> (\<not> is_caching_enabled w \<longrightarrow> (\<exists>obj c' w'. Cached_call c args w = Inr (obj, c', w') \<and> trace w' = trace w @ [CallFunc]))
            \<and> (is_caching_enabled w \<longrightarrow> cache_type = ''disk'' \<longrightarrow>
                 (use_mem_cache c \<longrightarrow> has_cached_version c ''mem'' func_id args_id w = Inr True \<longrightarrow>
            (\<exists>obj c' w'. Cached_call c args w = Inr (obj, c', w')
               \<and> trace w' = trace w @ [Lookup ''mem'',
                      LoadItem (mf_location (memory_cached_func c)), Deepcopy]))
       \<and> ((use_mem_cache c \<longrightarrow> has_cached_version c ''mem'' func_id args_id w = Inr False) \<longrightarrow>
            (\<exists>obj c' w'. Cached_call c args w = Inr (obj, c', w')
               \<and> (trace w' = trace w @ [Lookup ''mem'', Lookup ''disk'', CallFunc,
                      DumpItem (mf_location (disk_cached_func c)),
                      DumpItem (mf_location (memory_cached_func c)), Deepcopy]
                  \<or> trace w' = trace w @ [Lookup ''mem'', CallFunc,
                      DumpItem (mf_location (memory_cached_func c)),
                      DumpItem (mf_location (memory_cached_func c)), Deepcopy]
                  \<or> trace w' = trace w @ [Lookup ''disk'', CallFunc,
                      DumpItem (mf_location (disk_cached_func c)), Deepcopy]
                  \<or> trace w' = trace w @ [CallFunc, Deepcopy]))))
            \<and> (is_caching_enabled w \<longrightarrow> cache_type = ''mem'' \<longrightarrow>
                 (use_disk_cache c \<longrightarrow> has_cached_version c ''disk'' func_id args_id w = Inr True \<longrightarrow>
            (\<exists>obj c' w'. Cached_call c args w = Inr (obj, c', w')
               \<and> (trace w' = trace w @ [Lookup ''mem'', Lookup ''disk'',
                      LoadItem (mf_location (disk_cached_func c)),
                      DumpItem (mf_location (memory_cached_func c)), Deepcopy]
                  \<or> trace w' = trace w @ [Lookup ''disk'',
                      LoadItem (mf_location (disk_cached_func c)), Deepcopy])))
       \<and> ((use_disk_cache c \<longrightarrow> has_cached_version c ''disk'' func_id args_id w = Inr False) \<longrightarrow>
            (\<exists>obj c' w'. Cached_call c args w = Inr (obj, c', w')
               \<and> (trace w' = trace w @ [Lookup ''mem'', Lookup ''disk'', CallFunc,
                      DumpItem (mf_location (disk_cached_func c)),
                      DumpItem (mf_location (memory_cached_func c)), Deepcopy]
                  \<or> trace w' = trace w @ [Lookup ''mem'', CallFunc,
                      DumpItem (mf_location (memory_cached_func c)),
                      DumpItem (mf_location (memory_cached_func c)), Deepcopy]
                  \<or> trace w' = trace w @ [Lookup ''disk'', CallFunc,
                      DumpItem (mf_location (disk_cached_func c)), Deepcopy]
                  \<or> trace w' = trace w @ [CallFunc, Deepcopy])))))
       \<and> (get_cached_func_code (mf_location cache) func_id w = Inr (old_func_code, first_line) \<longrightarrow>
            old_func_code = fn_source (func c) \<longrightarrow>
              has_cached_version c cache_type func_id args_id w = Inr True)"
proof -
  have ct: "cache_type = ''mem'' \<or> cache_type = ''disk''"
    using cache by (auto simp: Cached_get_cache_def split: if_splits)
  have m: "(func_id, args_id) = get_output_identifiers (memory_cached_func c) args"
    using ids ct inv by (auto simp: get_output_identifiers_def cached_inv_def)
  have matches: "get_cached_func_code (mf_location cache) func_id w = Inr (old_func_code, first_line) \<longrightarrow>
            old_func_code = fn_source (func c) \<longrightarrow>
              has_cached_version c cache_type func_id args_id w = Inr True"
    using has cache by (simp add: has_cached_version_def)
  have stale: "has_cached_version c cache_type func_id args_id w = Inr False"
    if "\<not> function_hash_is_current (func c) (hash_func cache) w"
      "get_cached_func_code (mf_location cache) func_id w = Inr (old_func_code, first_line)"
      "old_func_code \<noteq> fn_source (func c)"
    using that has cache by (auto simp: has_cached_version_def)
  have off: "\<not> is_caching_enabled w \<longrightarrow> (\<exists>obj c' w'. Cached_call c args w = Inr (obj, c', w') \<and> trace w' = trace w @ [CallFunc])"
    using Cached_call_disabled [of w c args] by blast
  have disk: "is_caching_enabled w \<longrightarrow> cache_type = ''disk'' \<longrightarrow>
                 (use_mem_cache c \<longrightarrow> has_cached_version c ''mem'' func_id args_id w = Inr True \<longrightarrow>
            (\<exists>obj c' w'. Cached_call c args w = Inr (obj, c', w')
               \<and> trace w' = trace w @ [Lookup ''mem'',
                      LoadItem (mf_location (memory_cached_func c)), Deepcopy]))
       \<and> ((use_mem_cache c \<longrightarrow> has_cached_version c ''mem'' func_id args_id w = Inr False) \<longrightarrow>
            (\<exists>obj c' w'. Cached_call c args w = Inr (obj, c', w')
               \<and> (trace w' = trace w @ [Lookup ''mem'', Lookup ''disk'', CallFunc,
                      DumpItem (mf_location (disk_cached_func c)),
                      DumpItem (mf_location (memory_cached_func c)), Deepcopy]
                  \<or> trace w' = trace w @ [Lookup ''mem'', CallFunc,
                      DumpItem (mf_location (memory_cached_func c)),
                      DumpItem (mf_location (memory_cached_func c)), Deepcopy]
                  \<or> trace w' = trace w @ [Lookup ''disk'', CallFunc,
                      DumpItem (mf_location (disk_cached_func c)), Deepcopy]
                  \<or> trace w' = trace w @ [CallFunc, Deepcopy])))"
    if "has_cached_version c cache_type func_id args_id w = Inr False"
  proof (intro impI)
    assume en: "is_caching_enabled w" and "cache_type = ''disk''"
    with that have dm: "has_cached_version c ''disk'' func_id args_id w = Inr False" by simp
    show "(use_mem_cache c \<longrightarrow> has_cached_version c ''mem'' func_id args_id w = Inr True \<longrightarrow>
            (\<exists>obj c' w'. Cached_call c args w = Inr (obj, c', w')
               \<and> trace w' = trace w @ [Lookup ''mem'',
                      LoadItem (mf_location (memory_cached_func c)), Deepcopy]))
       \<and> ((use_mem_cache c \<longrightarrow> has_cached_version c ''mem'' func_id args_id w = Inr False) \<longrightarrow>
            (\<exists>obj c' w'. Cached_call c args w = Inr (obj, c', w')
               \<and> (trace w' = trace w @ [Lookup ''mem'', Lookup ''disk'', CallFunc,
                      DumpItem (mf_location (disk_cached_func c)),
                      DumpItem (mf_location (memory_cached_func c)), Deepcopy]
                  \<or> trace w' = trace w @ [Lookup ''mem'', CallFunc,
                      DumpItem (mf_location (memory_cached_func c)),
                      DumpItem (mf_location (memory_cached_func c)), Deepcopy]
                  \<or> trace w' = trace w @ [Lookup ''disk'', CallFunc,
                      DumpItem (mf_location (disk_cached_func c)), Deepcopy]
                  \<or> trace w' = trace w @ [CallFunc, Deepcopy])))"
      by (rule disk_invalid_courses [OF inv en m dm])
  qed
  have mem: "is_caching_enabled w \<longrightarrow> cache_type = ''mem'' \<longrightarrow>
                 (use_disk_cache c \<longrightarrow> has_cached_version c ''disk'' func_id args_id w = Inr True \<longrightarrow>
            (\<exists>obj c' w'. Cached_call c args w = Inr (obj, c', w')
               \<and> (trace w' = trace w @ [Lookup ''mem'', Lookup ''disk'',
                      LoadItem (mf_location (disk_cached_func c)),
                      DumpItem (mf_location (memory_cached_func c)), Deepcopy]
                  \<or> trace w' = trace w @ [Lookup ''disk'',
                      LoadItem (mf_location (disk_cached_func c)), Deepcopy])))
       \<and> ((use_disk_cache c \<longrightarrow> has_cached_version c ''disk'' func_id args_id w = Inr False) \<longrightarrow>
            (\<exists>obj c' w'. Cached_call c args w = Inr (obj, c', w')
               \<and> (trace w' = trace w @ [Lookup ''mem'', Lookup ''disk'', CallFunc,
                      DumpItem (mf_location (disk_cached_func c)),
                      DumpItem (mf_location (memory_cached_func c)), Deepcopy]
                  \<or> trace w' = trace w @ [Lookup ''mem'', CallFunc,
                      DumpItem (mf_location (memory_cached_func c)),
                      DumpItem (mf_location (memory_cached_func c)), Deepcopy]
                  \<or> trace w' = trace w @ [Lookup ''disk'', CallFunc,
                      DumpItem (mf_location (disk_cached_func c)), Deepcopy]
                  \<or> trace w' = trace w @ [CallFunc, Deepcopy])))"
    if "has_cached_version c cache_type func_id args_id w = Inr False"
  proof (intro impI)
    assume en: "is_caching_enabled w" and "cache_type = ''mem''"
    with that have mm: "has_cached_version c ''mem'' func_id args_id w = Inr False" by simp
    show "(use_disk_cache c \<longrightarrow> has_cached_version c ''disk'' func_id args_id w = Inr True \<longrightarrow>
            (\<exists>obj c' w'. Cached_call c args w = Inr (obj, c', w')
               \<and> (trace w' = trace w @ [Lookup ''mem'', Lookup ''disk'',
                      LoadItem (mf_location (disk_cached_func c)),
                      DumpItem (mf_location (memory_cached_func c)), Deepcopy]
                  \<or> trace w' = trace w @ [Lookup ''disk'',
                      LoadItem (mf_location (disk_cached_func c)), Deepcopy])))
       \<and> ((use_disk_cache c \<longrightarrow> has_cached_version c ''disk'' func_id args_id w = Inr False) \<longrightarrow>
            (\<exists>obj c' w'. Cached_call c args w = Inr (obj, c', w')
               \<and> (trace w' = trace w @ [Lookup ''mem'', Lookup ''disk'', CallFunc,
                      DumpItem (mf_location (disk_cached_func c)),
                      DumpItem (mf_location (memory_cached_func c)), Deepcopy]
                  \<or> trace w' = trace w @ [Lookup ''mem'', CallFunc,
                      DumpItem (mf_location (memory_cached_func c)),
                      DumpItem (mf_location (memory_cached_func c)), Deepcopy]
                  \<or> trace w' = trace w @ [Lookup ''disk'', CallFunc,
                      DumpItem (mf_location (disk_cached_func c)), Deepcopy]
                  \<or> trace w' = trace w @ [CallFunc, Deepcopy])))"
      by (rule mem_invalid_courses [OF inv en m mm])
  qed
  have first: "\<not> function_hash_is_current (func c) (hash_func cache) w \<longrightarrow>
            get_cached_func_code (mf_location cache) func_id w = Inr (old_func_code, first_line) \<longrightarrow>
            old_func_code \<noteq> fn_source (func c) \<longrightarrow>
            has_cached_version c cache_type func_id args_id w = Inr False
            \<and> (\<not> is_caching_enabled w \<longrightarrow> (\<exists>obj c' w'. Cached_call c args w = Inr (obj, c', w') \<and> trace w' = trace w @ [CallFunc]))
            \<and> (is_caching_enabled w \<longrightarrow> cache_type = ''disk'' \<longrightarrow>
                 (use_mem_cache c \<longrightarrow> has_cached_version c ''mem'' func_id args_id w = Inr True \<longrightarrow>
            (\<exists>obj c' w'. Cached_call c args w = Inr (obj, c', w')
               \<and> trace w' = trace w @ [Lookup ''mem'',
                      LoadItem (mf_location (memory_cached_func c)), Deepcopy]))
       \<and> ((use_mem_cache c \<longrightarrow> has_cached_version c ''mem'' func_id args_id w = Inr False) \<longrightarrow>
            (\<exists>obj c' w'. Cached_call c args w = Inr (obj, c', w')
               \<and> (trace w' = trace w @ [Lookup ''mem'', Lookup ''disk'', CallFunc,
                      DumpItem (mf_location (disk_cached_func c)),
                      DumpItem (mf_location (memory_cached_func c)), Deepcopy]
                  \<or> trace w' = trace w @ [Lookup ''mem'', CallFunc,
                      DumpItem (mf_location (memory_cached_func c)),
                      DumpItem (mf_location (memory_cached_func c)), Deepcopy]
                  \<or> trace w' = trace w @ [Lookup ''disk'', CallFunc,
                      DumpItem (mf_location (disk_cached_func c)), Deepcopy]
                  \<or> trace w' = trace w @ [CallFunc, Deepcopy]))))
            \<and> (is_caching_enabled w \<longrightarrow> cache_type = ''mem'' \<longrightarrow>
                 (use_disk_cache c \<longrightarrow> has_cached_version c ''disk'' func_id args_id w = Inr True \<longrightarrow>
            (\<exists>obj c' w'. Cached_call c args w = Inr (obj, c', w')
               \<and> (trace w' = trace w @ [Lookup ''mem'', Lookup ''disk'',
                      LoadItem (mf_location (disk_cached_func c)),
                      DumpItem (mf_location (memory_cached_func c)), Deepcopy]
                  \<or> trace w' = trace w @ [Lookup ''disk'',
                      LoadItem (mf_location (disk_cached_func c)), Deepcopy])))
       \<and> ((use_disk_cache c \<longrightarrow> has_cached_version c ''disk'' func_id args_id w = Inr False) \<longrightarrow>
            (\<exists>obj c' w'. Cached_call c args w = Inr (obj, c', w')
               \<and> (trace w' = trace w @ [Lookup ''mem'', Lookup ''disk'', CallFunc,
                      DumpItem (mf_location (disk_cached_func c)),
                      DumpItem (mf_location (memory_cached_func c)), Deepcopy]
                  \<or> trace w' = trace w @ [Lookup ''mem'', CallFunc,
                      DumpItem (mf_location (memory_cached_func c)),
                      DumpItem (mf_location (memory_cached_func c)), Deepcopy]
                  \<or> trace w' = trace w @ [Lookup ''disk'', CallFunc,
                      DumpItem (mf_location (disk_cached_func c)), Deepcopy]
                  \<or> trace w' = trace w @ [CallFunc, Deepcopy]))))"
  proof (intro impI)
    assume s: "\<not> function_hash_is_current (func c) (hash_func cache) w"
      "get_cached_func_code (mf_location cache) func_id w = Inr (old_func_code, first_line)"
      "old_func_code \<noteq> fn_source (func c)"
    show "has_cached_version c cache_type func_id args_id w = Inr False
            \<and> (\<not> is_caching_enabled w \<longrightarrow> (\<exists>obj c' w'. Cached_call c args w = Inr (obj, c', w') \<and> trace w' = trace w @ [CallFunc]))
            \<and> (is_caching_enabled w \<longrightarrow> cache_type = ''disk'' \<longrightarrow>
                 (use_mem_cache c \<longrightarrow> has_cached_version c ''mem'' func_id args_id w = Inr True \<longrightarrow>
            (\<exists>obj c' w'. Cached_call c args w = Inr (obj, c', w')
               \<and> trace w' = trace w @ [Lookup ''mem'',
                      LoadItem (mf_location (memory_cached_func c)), Deepcopy]))
       \<and> ((use_mem_cache c \<longrightarrow> has_cached_version c ''mem'' func_id args_id w = Inr False) \<longrightarrow>
            (\<exists>obj c' w'. Cached_call c args w = Inr (obj, c', w')
               \<and> (trace w' = trace w @ [Lookup ''mem'', Lookup ''disk'', CallFunc,
                      DumpItem (mf_location (disk_cached_func c)),
                      DumpItem (mf_location (memory_cached_func c)), Deepcopy]
                  \<or> trace w' = trace w @ [Lookup ''mem'', CallFunc,
                      DumpItem (mf_location (memory_cached_func c)),
                      DumpItem (mf_location (memory_cached_func c)), Deepcopy]
                  \<or> trace w' = trace w @ [Lookup ''disk'', CallFunc,
                      DumpItem (mf_location (disk_cached_func c)), Deepcopy]
                  \<or> trace w' = trace w @ [CallFunc, Deepcopy]))))
            \<and> (is_caching_enabled w \<longrightarrow> cache_type = ''mem'' \<longrightarrow>
                 (use_disk_cache c \<longrightarrow> has_cached_version c ''disk'' func_id args_id w = Inr True \<longrightarrow>
            (\<exists>obj c' w'. Cached_call c args w = Inr (obj, c', w')
               \<and> (trace w' = trace w @ [Lookup ''mem'', Lookup ''disk'',
                      LoadItem (mf_location (disk_cached_func c)),
                      DumpItem (mf_location (memory_cached_func c)), Deepcopy]
                  \<or> trace w' = trace w @ [Lookup ''disk'',
                      LoadItem (mf_location (disk_cached_func c)), Deepcopy])))
       \<and> ((use_disk_cache c \<longrightarrow> has_cached_version c ''disk'' func_id args_id w = Inr False) \<longrightarrow>
            (\<exists>obj c' w'. Cached_call c args w = Inr (obj, c', w')
               \<and> (trace w' = trace w @ [Lookup ''mem'', Lookup ''disk'', CallFunc,
                      DumpItem (mf_location (disk_cached_func c)),
                      DumpItem (mf_location (memory_cached_func c)), Deepcopy]
                  \<or> trace w' = trace w @ [Lookup ''mem'', CallFunc,
                      DumpItem (mf_location (memory_cached_func c)),
                      DumpItem (mf_location (memory_cached_func c)), Deepcopy]
                  \<or> trace w' = trace w @ [Lookup ''disk'', CallFunc,
                      DumpItem (mf_location (disk_cached_func c)), Deepcopy]
                  \<or> trace w' = trace w @ [CallFunc, Deepcopy]))))"
      by (intro conjI stale [OF s] off disk [OF stale [OF s]] mem [OF stale [OF s]])
  qed
  from first matches show ?thesis by (rule conjI)
qed

theorem has_cached_version_detects_stale_source_witness:
  "has_cached_version (cached_count True True) ''mem'' ''lib/count_chars'' ''abc'' world3 = Inr False
   \<and> (\<exists>obj c' w'. Cached_call (cached_count True True) ''abc'' world3 = Inr (obj, c', w')
         \<and> (trace w' = [Lookup ''mem'', Lookup ''disk'', LoadItem ''/repo/tmp.joblib.disk'',
               DumpItem ''/mnt/tmpfs/tmp.joblib.mem'', Deepcopy]
            \<or> trace w' = [Lookup ''disk'', LoadItem ''/repo/tmp.joblib.disk'', Deepcopy]))
   \<and> has_cached_version (cached_count True True) ''disk'' ''lib/count_chars'' ''abc'' world4 = Inr False
   \<and> (\<exists>obj c' w'. Cached_call (cached_count True True) ''abc'' world4 = Inr (obj, c', w')
         \<and> trace w' = [Lookup ''mem'', LoadItem ''/mnt/tmpfs/tmp.joblib.mem'', Deepcopy])
   \<and> has_cached_version (cached_count True True) ''disk'' ''lib/count_chars'' ''abc'' world2 = Inr True"
proof -
  let ?c = "cached_count True True"
  have ids: "get_identifiers ?c ''mem'' ''abc'' = Inr (''lib/count_chars'', ''abc'')"
    "get_identifiers ?c ''disk'' ''abc'' = Inr (''lib/count_chars'', ''abc'')"
    by (simp_all add: example_facts)
  have fl: "use_mem_cache ?c" "use_disk_cache ?c" by (simp_all add: example_facts)
  have has3: "contains_item (mf_location (memory_cached_func ?c)) (''lib/count_chars'', ''abc'') world3"
    by (simp add: example_facts world3_facts)
  have stale3: "\<not> function_hash_is_current (func ?c) (hash_func (memory_cached_func ?c)) world3"
    "get_cached_func_code (mf_location (memory_cached_func ?c)) ''lib/count_chars'' world3
       = Inr (''def count_chars(s): return 7'', 3)"
    "''def count_chars(s): return 7'' \<noteq> fn_source (func ?c)"
    by (simp_all add: example_facts world3_facts)
  note t3 = has_cached_version_detects_stale_source [OF cached_count_inv ids(1)
      Cached_get_cache_simps(2) has3, THEN conjunct1, rule_format, OF stale3]
  from t3 have a: "has_cached_version ?c ''mem'' ''lib/count_chars'' ''abc'' world3 = Inr False"
    by (rule conjunct1)
  from t3 [THEN conjunct2, THEN conjunct2, THEN conjunct2, rule_format, OF world3_facts(1) refl,
      THEN conjunct1, rule_format, OF fl(2) has_cached_version_world3(2)]
  have b: "\<exists>obj c' w'. Cached_call ?c ''abc'' world3 = Inr (obj, c', w')
         \<and> (trace w' = [Lookup ''mem'', Lookup ''disk'', LoadItem ''/repo/tmp.joblib.disk'',
               DumpItem ''/mnt/tmpfs/tmp.joblib.mem'', Deepcopy]
            \<or> trace w' = [Lookup ''disk'', LoadItem ''/repo/tmp.joblib.disk'', Deepcopy])"
    by (simp add: example_facts world3_facts)
  have has4: "contains_item (mf_location (disk_cached_func ?c)) (''lib/count_chars'', ''abc'') world4"
    by (simp add: example_facts world4_facts)
  have stale4: "\<not> function_hash_is_current (func ?c) (hash_func (disk_cached_func ?c)) world4"
    "get_cached_func_code (mf_location (disk_cached_func ?c)) ''lib/count_chars'' world4
       = Inr (''def count_chars(s): return 7'', 3)"
    "''def count_chars(s): return 7'' \<noteq> fn_source (func ?c)"
    by (simp_all add: example_facts world4_facts world3_facts)
  note t4 = has_cached_version_detects_stale_source [OF cached_count_inv ids(2)
      Cached_get_cache_simps(1) has4, THEN conjunct1, rule_format, OF stale4]
  from t4 have c: "has_cached_version ?c ''disk'' ''lib/count_chars'' ''abc'' world4 = Inr False"
    by (rule conjunct1)
  from t4 [THEN conjunct2, THEN conjunct2, THEN conjunct1, rule_format, OF world4_facts(1) refl,
      THEN conjunct1, rule_format, OF fl(1) has_cached_version_world4(1)]
  have d: "\<exists>obj c' w'. Cached_call ?c ''abc'' world4 = Inr (obj, c', w')
         \<and> trace w' = [Lookup ''mem'', LoadItem ''/mnt/tmpfs/tmp.joblib.mem'', Deepcopy]"
    by (simp add: example_facts world4_facts)
  have has2: "contains_item (mf_location (disk_cached_func ?c)) (''lib/count_chars'', ''abc'') world2"
    by (simp add: contains_item_def example_defs)
  have code2: "get_cached_func_code (mf_location (disk_cached_func ?c)) ''lib/count_chars'' world2
       = Inr (fn_source (func ?c), 3)"
    by (simp add: get_cached_func_code_def example_defs)
  from has_cached_version_detects_stale_source [OF cached_count_inv ids(2)
      Cached_get_cache_simps(1) has2, THEN conjunct2, rule_format, OF code2 refl]
  have e: "has_cached_version ?c ''disk'' ''lib/count_chars'' ''abc'' world2 = Inr True" .
  from a b c d e show ?thesis by blast
qed

text \<open>
  The claim as written says the value is recomputed whenever the entry is stale. The
  memory cache of \<^term>\<open>world3\<close> holds an entry stored under another source, its disk
  cache a valid one: \<^verbatim>\<open>_has_cached_version("mem", ...)\<close> is False, and the call
  returns the disk entry without running the function.
\<close>

theorem stale_entry_recomputed_counterexample:
  "contains_item (mf_location (memory_cached_func (cached_count True True)))
      (''lib/count_chars'', ''abc'') world3
   \<and> \<not> function_hash_is_current (func (cached_count True True))
        (hash_func (memory_cached_func (cached_count True True))) world3
   \<and> get_cached_func_code (mf_location (memory_cached_func (cached_count True True)))
        ''lib/count_chars'' world3 = Inr (''def count_chars(s): return 7'', 3)
   \<and> fn_source (func (cached_count True True)) \<noteq> ''def count_chars(s): return 7''
   \<and> has_cached_version (cached_count True True) ''mem'' ''lib/count_chars'' ''abc'' world3 = Inr False
   \<and> (\<exists>obj c' w'. Cached_call (cached_count True True) ''abc'' world3 = Inr (obj, c', w')
         \<and> CallFunc \<notin> set (trace w')
         \<and> trace w' = [Lookup ''mem'', Lookup ''disk'', LoadItem ''/repo/tmp.joblib.disk'',
              DumpItem ''/mnt/tmpfs/tmp.joblib.mem'', Deepcopy])"
proof -
  from call_world3 have "\<exists>obj c' w'. Cached_call (cached_count True True) ''abc'' world3 = Inr (obj, c', w')
         \<and> CallFunc \<notin> set (trace w')
         \<and> trace w' = [Lookup ''mem'', Lookup ''disk'', LoadItem ''/repo/tmp.joblib.disk'',
              DumpItem ''/mnt/tmpfs/tmp.joblib.mem'', Deepcopy]"
    by auto
  then show ?thesis
    by (simp add: example_facts world3_facts has_cached_version_world3)
qed

subsection \<open>Which backend satisfied a call\<close>



subsection \<open>Memoization\<close>

text \<open>
  Claim C4. With caching enabled and both levels in use, of two consecutive calls of the
  same \<^verbatim>\<open>Cached\<close> object (the same function with the same source) on equal
  arguments, the second returns: it is satisfied from the memory cache, runs nothing, and
  the object it returns has the contents of the object the first call returned. Over the
  two calls together the wrapped function runs at most once.
\<close>

theorem Cached_memoizes:
  assumes inv: "cached_inv c" and en: "is_caching_enabled w"
      and um: "use_mem_cache c" and ud: "use_disk_cache c"
      and r: "Cached_call c args w = Inr (obj, c', w')"
  shows "\<exists>obj2 c2 w2 new. Cached_call c' args w' = Inr (obj2, c2, w2)
       \<and> heap w2 ! obj2 = heap w' ! obj
       \<and> get_last_cache_accessed c2 = ''mem''
       \<and> trace w2 = trace w' @ [Lookup ''mem'',
              LoadItem (mf_location (memory_cached_func c)), Deepcopy]
       \<and> trace w2 = trace w @ new
       \<and> length (filter (\<lambda>e. e = CallFunc) new) \<le> 1"
proof -
  from Cached_call_twice [OF inv en r, of w'] um
  obtain obj2 c2 w2 where s: "Cached_call c' args w' = Inr (obj2, c2, w2)"
    "heap w2 ! obj2 = heap w' ! obj" "get_last_cache_accessed c2 = ''mem''"
    "trace w2 = trace w' @ [Lookup ''mem'',
              LoadItem (mf_location (memory_cached_func c)), Deepcopy]"
    by auto
  from Cached_call_runs_once [OF inv r] obtain new1
    where n: "trace w' = trace w @ new1" "length (filter (\<lambda>e. e = CallFunc) new1) \<le> 1"
    by blast
  let ?new = "new1 @ [Lookup ''mem'', LoadItem (mf_location (memory_cached_func c)), Deepcopy]"
  have "trace w2 = trace w @ ?new" using s(4) n(1) by simp
  moreover have "length (filter (\<lambda>e. e = CallFunc) ?new) \<le> 1" using n(2) by simp
  ultimately show ?thesis using s by blast
qed

theorem Cached_memoizes_witness:
  "\<exists>obj c' w' obj2 c2 w2.
      Cached_call (cached_count True True) ''abc'' world1 = Inr (obj, c', w')
    \<and> Cached_call c' ''abc'' w' = Inr (obj2, c2, w2)
    \<and> heap w' ! obj = 3 \<and> heap w2 ! obj2 = 3
    \<and> get_last_cache_accessed c2 = ''mem''
    \<and> trace w2 = [Lookup ''mem'', Lookup ''disk'', CallFunc,
            DumpItem ''/repo/tmp.joblib.disk'', DumpItem ''/mnt/tmpfs/tmp.joblib.mem'', Deepcopy,
            Lookup ''mem'', LoadItem ''/mnt/tmpfs/tmp.joblib.mem'', Deepcopy]"
proof -
  let ?c = "cached_count True True"
  from first_call_world1 obtain c' w'
    where r: "Cached_call ?c ''abc'' world1 = Inr (Suc 0, c', w')"
      and h: "heap w' = [3, 3]"
      and t: "trace w' = [Lookup ''mem'', Lookup ''disk'', CallFunc,
            DumpItem ''/repo/tmp.joblib.disk'', DumpItem ''/mnt/tmpfs/tmp.joblib.mem'', Deepcopy]"
    by blast
  have fl: "use_mem_cache ?c" "use_disk_cache ?c" by (simp_all add: example_facts)
  from Cached_memoizes [OF cached_count_inv example_facts(8) fl r]
  obtain obj2 c2 w2 where "Cached_call c' ''abc'' w' = Inr (obj2, c2, w2)"
    "heap w2 ! obj2 = heap w' ! Suc 0" "get_last_cache_accessed c2 = ''mem''"
    "trace w2 = trace w' @ [Lookup ''mem'',
              LoadItem (mf_location (memory_cached_func ?c)), Deepcopy]"
    by blast
  with r h t show ?thesis by (simp add: example_facts)
qed

subsection \<open>Promotion into the memory cache\<close>

text \<open>
  Claim C5. With caching enabled and the memory level in use, after a call returns the
  memory cache holds a valid entry for the call's digests, with the contents of the
  object returned; when the call missed the memory cache, the last thing done before the
  copy is the dump of the value (read from disk or computed) into the memory store. So
  the same call made again at once is satisfied from memory:
  \<^verbatim>\<open>get_last_cache_accessed() == 'mem'\<close>.
\<close>

theorem memory_write_back:
  assumes inv: "cached_inv c" and en: "is_caching_enabled w" and um: "use_mem_cache c"
      and ids: "get_identifiers c ''mem'' args = Inr (func_id, args_id)"
      and r: "Cached_call c args w = Inr (obj, c', w')"
  shows "has_cached_version c' ''mem'' func_id args_id w' = Inr True
       \<and> items (stores w' (mf_location (memory_cached_func c'))) (func_id, args_id)
           = Some (heap w' ! obj)
       \<and> (has_cached_version c ''mem'' func_id args_id w = Inr False \<longrightarrow>
            (\<exists>before. trace w' = before @ [DumpItem (mf_location (memory_cached_func c)), Deepcopy]))
       \<and> (\<exists>obj2 c2 w2. Cached_call c' args w' = Inr (obj2, c2, w2)
            \<and> get_last_cache_accessed c2 = ''mem''
            \<and> trace w2 = trace w' @ [Lookup ''mem'',
                   LoadItem (mf_location (memory_cached_func c)), Deepcopy]
            \<and> heap w2 ! obj2 = heap w' ! obj)"
proof -
  have m: "(func_id, args_id) = get_output_identifiers (memory_cached_func c) args"
    using ids by simp
  from Cached_call_keeps [OF r] have k: "same_object c' c" by simp
  then have fl: "memory_cached_func c' = memory_cached_func c" by (simp add: same_object_def)
  have inv': "cached_inv c'" using inv same_object_inv [OF k] by simp
  from Cached_call_then_remembers [OF inv en r] obtain v
    where v: "obj = Suc (length (heap w))" "heap w' = heap w @ [v, v]" "remembers c args w' v"
    by blast
  have hv: "heap w' ! obj = v" using v(1,2) by simp
  have e: "entry_of (memory_cached_func c) args w' = Some v"
    and cur: "code_is_current (memory_cached_func c) w'"
    using v(3) um by (simp_all add: remembers_def)
  have m': "(func_id, args_id) = get_output_identifiers (memory_cached_func c') args"
    using m fl by simp
  have 1: "has_cached_version c' ''mem'' func_id args_id w' = Inr True"
    using has_cached_version_True_valid(1) [OF inv' m', of w'] e cur fl by simp
  have 2: "items (stores w' (mf_location (memory_cached_func c'))) (func_id, args_id)
           = Some (heap w' ! obj)"
    using e hv fl m [symmetric] by (simp add: entry_of_def)
  have 3: "has_cached_version c ''mem'' func_id args_id w = Inr False \<longrightarrow>
            (\<exists>before. trace w' = before @ [DumpItem (mf_location (memory_cached_func c)), Deepcopy])"
    using mem_miss_written_back [OF inv en um m _ r] by blast
  have 4: "\<exists>obj2 c2 w2. Cached_call c' args w' = Inr (obj2, c2, w2)
            \<and> get_last_cache_accessed c2 = ''mem''
            \<and> trace w2 = trace w' @ [Lookup ''mem'',
                   LoadItem (mf_location (memory_cached_func c)), Deepcopy]
            \<and> heap w2 ! obj2 = heap w' ! obj"
    using Cached_call_twice [OF inv en r, of w'] um by auto
  from 1 2 3 4 show ?thesis by blast
qed

theorem memory_write_back_witness:
  "\<exists>obj c' w'. Cached_call (cached_count True True) ''abc'' world1 = Inr (obj, c', w')
     \<and> has_cached_version (cached_count True True) ''mem'' ''lib/count_chars'' ''abc'' world1 = Inr False
     \<and> has_cached_version c' ''mem'' ''lib/count_chars'' ''abc'' w' = Inr True
     \<and> items (stores w' ''/mnt/tmpfs/tmp.joblib.mem'') (''lib/count_chars'', ''abc'') = Some 3
     \<and> (\<exists>before. trace w' = before @ [DumpItem ''/mnt/tmpfs/tmp.joblib.mem'', Deepcopy])
     \<and> (\<exists>obj2 c2 w2. Cached_call c' ''abc'' w' = Inr (obj2, c2, w2)
          \<and> get_last_cache_accessed c2 = ''mem'' \<and> heap w2 ! obj2 = 3)"
proof -
  let ?c = "cached_count True True"
  from first_call_world1 obtain c' w'
    where r: "Cached_call ?c ''abc'' world1 = Inr (Suc 0, c', w')" and h: "heap w' = [3, 3]"
    by blast
  have ids: "get_identifiers ?c ''mem'' ''abc'' = Inr (''lib/count_chars'', ''abc'')"
    by (simp add: example_facts)
  have um: "use_mem_cache ?c" by (simp add: example_facts)
  have miss: "has_cached_version ?c ''mem'' ''lib/count_chars'' ''abc'' world1 = Inr False"
    by (simp add: has_cached_version_world1)
  from Cached_call_keeps [OF r] have fl: "memory_cached_func c' = memory_cached_func ?c"
    by (simp add: same_object_def)
  note t = memory_write_back [OF cached_count_inv example_facts(8) um ids r]
  from t have 1: "has_cached_version c' ''mem'' ''lib/count_chars'' ''abc'' w' = Inr True" by blast
  from t have 2: "items (stores w' ''/mnt/tmpfs/tmp.joblib.mem'') (''lib/count_chars'', ''abc'') = Some 3"
    using h fl by (simp add: example_facts)
  from t miss have 3: "\<exists>before. trace w' = before @ [DumpItem ''/mnt/tmpfs/tmp.joblib.mem'', Deepcopy]"
    by (simp add: example_facts)
  from t have 4: "\<exists>obj2 c2 w2. Cached_call c' ''abc'' w' = Inr (obj2, c2, w2)
          \<and> get_last_cache_accessed c2 = ''mem'' \<and> heap w2 ! obj2 = 3"
    using h by auto
  from r miss 1 2 3 4 show ?thesis by blast
qed

subsection \<open>The returned object is a copy\<close>

text \<open>
  Claim C6. With caching enabled, the last step of \<^verbatim>\<open>__call__\<close> is
  \<^verbatim>\<open>copy.deepcopy\<close>: the object returned is a new one, made after the object that
  was loaded or computed in this call and with the same contents. Whatever the caller
  then assigns to the returned object, the stores are as the call left them and the same
  call made again returns an object with the original contents. With caching globally
  disabled nothing is copied: the object returned is the one the wrapped function built,
  and running the function is all the call does.
\<close>

theorem Cached_call_returns_copy:
  assumes inv: "cached_inv c"
  shows "(is_caching_enabled w \<longrightarrow>
           (\<forall>obj c' w'. Cached_call c args w = Inr (obj, c', w') \<longrightarrow>
              (\<exists>before. trace w' = before @ [Deepcopy])
              \<and> (\<exists>src. length (heap w) \<le> src \<and> src < obj \<and> obj < length (heap w')
                     \<and> heap w' ! obj = heap w' ! src)
              \<and> (\<forall>x. stores (mutate obj x w') = stores w'
                     \<and> (\<exists>obj2 c2 w2. Cached_call c' args (mutate obj x w') = Inr (obj2, c2, w2)
                           \<and> heap w2 ! obj2 = heap w' ! obj))))
       \<and> (\<not> is_caching_enabled w \<longrightarrow>
           (\<exists>obj c' w'. Cached_call c args w = Inr (obj, c', w')
              \<and> obj = length (heap w)
              \<and> heap w' = heap w @ [fn_body (func c) args]
              \<and> trace w' = trace w @ [CallFunc]))"
proof (intro conjI allI impI)
  fix obj c' w'
  assume en: "is_caching_enabled w" and r: "Cached_call c args w = Inr (obj, c', w')"
  show "\<exists>before. trace w' = before @ [Deepcopy]"
    by (rule Cached_call_ends_with_copy [OF en r])
  from Cached_call_then_remembers [OF inv en r] obtain v
    where v: "obj = Suc (length (heap w))" "heap w' = heap w @ [v, v]"
    by blast
  have "length (heap w) \<le> length (heap w) \<and> length (heap w) < obj \<and> obj < length (heap w')
      \<and> heap w' ! obj = heap w' ! length (heap w)"
    using v by simp
  then show "\<exists>src. length (heap w) \<le> src \<and> src < obj \<and> obj < length (heap w')
      \<and> heap w' ! obj = heap w' ! src"
    by blast
  fix x
  show "stores (mutate obj x w') = stores w'" by simp
  from Cached_call_twice [OF inv en r, of "mutate obj x w'"]
  show "\<exists>obj2 c2 w2. Cached_call c' args (mutate obj x w') = Inr (obj2, c2, w2)
      \<and> heap w2 ! obj2 = heap w' ! obj"
    by auto
next
  assume "\<not> is_caching_enabled w"
  from Cached_call_disabled [OF this, of c args]
  show "\<exists>obj c' w'. Cached_call c args w = Inr (obj, c', w')
      \<and> obj = length (heap w)
      \<and> heap w' = heap w @ [fn_body (func c) args]
      \<and> trace w' = trace w @ [CallFunc]"
    by auto
qed

theorem Cached_call_returns_copy_witness:
  "(\<exists>obj c' w'. Cached_call (cached_count True True) ''abc'' world1 = Inr (obj, c', w')
      \<and> heap w' ! obj = 3
      \<and> heap (mutate obj 99 w') ! obj = 99
      \<and> stores (mutate obj 99 w') = stores w'
      \<and> (\<exists>obj2 c2 w2. Cached_call c' ''abc'' (mutate obj 99 w') = Inr (obj2, c2, w2)
            \<and> heap w2 ! obj2 = 3))
   \<and> (\<exists>obj c' w'. Cached_call (cached_count True True) ''abc'' (set_caching False world1)
          = Inr (obj, c', w')
      \<and> obj = 0 \<and> heap w' = [3] \<and> trace w' = [CallFunc])"
proof -
  let ?c = "cached_count True True"
  from first_call_world1 obtain c' w'
    where r: "Cached_call ?c ''abc'' world1 = Inr (Suc 0, c', w')" and h: "heap w' = [3, 3]"
    by blast
  note t = Cached_call_returns_copy [OF cached_count_inv, of world1 True True "''abc''",
      THEN conjunct1, rule_format, OF example_facts(8) r]
  from t have "\<exists>obj2 c2 w2. Cached_call c' ''abc'' (mutate (Suc 0) 99 w') = Inr (obj2, c2, w2)
            \<and> heap w2 ! obj2 = heap w' ! Suc 0"
    by blast
  with r h have a: "\<exists>obj c' w'. Cached_call ?c ''abc'' world1 = Inr (obj, c', w')
      \<and> heap w' ! obj = 3
      \<and> heap (mutate obj 99 w') ! obj = 99
      \<and> stores (mutate obj 99 w') = stores w'
      \<and> (\<exists>obj2 c2 w2. Cached_call c' ''abc'' (mutate obj 99 w') = Inr (obj2, c2, w2)
            \<and> heap w2 ! obj2 = 3)"
    by (auto simp: mutate_def)
  have off: "\<not> is_caching_enabled (set_caching False world1)"
    "trace (set_caching False world1) = []" "heap (set_caching False world1) = []"
    by (simp_all add: set_caching_def is_caching_enabled_def example_defs)
  have b: "\<exists>obj c' w'. Cached_call ?c ''abc'' (set_caching False world1) = Inr (obj, c', w')
      \<and> obj = 0 \<and> heap w' = [3] \<and> trace w' = [CallFunc]"
    using Cached_call_returns_copy [OF cached_count_inv, of "set_caching False world1"
        True True "''abc''", THEN conjunct2] off
    by (simp add: example_facts count_chars_def numeral_3_eq_3)
  from a b show ?thesis by blast
qed

subsection \<open>The downloaders' loops\<close>

lemma download_calls_append [simp]:
  "download_calls (xs @ ys) = download_calls xs @ download_calls ys"
  by (induction xs rule: download_calls.induct) simp_all

lemma csv_files_append [simp]:
  "csv_files (xs @ ys) = csv_files xs @ csv_files ys"
  by (induction xs rule: csv_files.induct) simp_all

text \<open>The inner loop: what it adds to the log.\<close>

lemma download_pairs_log:
  assumes "download_pairs env args x s e pairs log = (log', r)"
  shows "\<exists>new. log' = log @ new
       \<and> (\<exists>rest. map (Pair x) pairs = download_calls new @ rest \<and> (r = Inr () \<longrightarrow> rest = []))
       \<and> list_all2 (written_for env args s e)
           (take (length (csv_files new)) (map (Pair x) pairs)) (csv_files new)
       \<and> (r = Inr () \<longrightarrow> length (csv_files new) = length pairs)
       \<and> (\<forall>a \<in> set (butlast new). \<not> fails env a)
       \<and> (r = Inr () \<longrightarrow> (\<forall>a \<in> set new. \<not> fails env a))
       \<and> (r \<noteq> Inr () \<longrightarrow> new \<noteq> [] \<and> fails env (last new))"
  using assms
proof (induction pairs arbitrary: log)
  case Nil
  then show ?case by simp
next
  case (Cons pair pairs)
  let ?d = "DownloadOhlcv x pair s e (step args)"
  show ?case
  proof (cases "download_ohlcv_data env x pair s e (step args)")
    case (Inl err)
    with Cons.prems have "log' = log @ [?d]" "r = Inl err" by (simp_all add: Let_def)
    then show ?thesis using Inl by (intro exI [of _ "[?d]"]) simp
  next
    case (Inr pair_data)
    let ?three = "[?d, Sleep (sleep_time args),
        ToCsv (os_path_join (dst_dir args) (csv_file_name x pair)) pair_data]"
    from Cons.prems Inr have
      "download_pairs env args x s e pairs (log @ ?three) = (log', r)"
      by (simp add: Let_def)
    from Cons.IH [OF this] obtain new rest where n: "log' = (log @ ?three) @ new"
      and c: "map (Pair x) pairs = download_calls new @ rest" "r = Inr () \<longrightarrow> rest = []"
      and f: "list_all2 (written_for env args s e)
           (take (length (csv_files new)) (map (Pair x) pairs)) (csv_files new)"
      and l: "r = Inr () \<longrightarrow> length (csv_files new) = length pairs"
      and b: "\<forall>a \<in> set (butlast new). \<not> fails env a"
      and ok: "r = Inr () \<longrightarrow> (\<forall>a \<in> set new. \<not> fails env a)"
      and bad: "r \<noteq> Inr () \<longrightarrow> new \<noteq> [] \<and> fails env (last new)"
      by blast
    have three: "\<forall>a \<in> set ?three. \<not> fails env a" using Inr by simp
    have bl: "\<forall>a \<in> set (butlast (?three @ new)). \<not> fails env a"
      using three b by (cases "new = []") (auto simp: butlast_append)
    show ?thesis
    proof (intro exI [of _ "?three @ new"] conjI)
      show "log' = log @ ?three @ new" using n by simp
      show "\<exists>rest. map (Pair x) (pair # pairs) = download_calls (?three @ new) @ rest
          \<and> (r = Inr () \<longrightarrow> rest = [])"
        using c by (intro exI [of _ rest]) simp
      show "list_all2 (written_for env args s e)
           (take (length (csv_files (?three @ new))) (map (Pair x) (pair # pairs)))
           (csv_files (?three @ new))"
        using f Inr by (simp add: written_for_def)
      show "r = Inr () \<longrightarrow> length (csv_files (?three @ new)) = length (pair # pairs)"
        using l by simp
      show "\<forall>a \<in> set (butlast (?three @ new)). \<not> fails env a" by (rule bl)
      show "r = Inr () \<longrightarrow> (\<forall>a \<in> set (?three @ new). \<not> fails env a)"
        using ok three by auto
      show "r \<noteq> Inr () \<longrightarrow> ?three @ new \<noteq> [] \<and> fails env (last (?three @ new))"
        using bad by auto
    qed
  qed
qed

text \<open>The outer loop.\<close>

lemma planned_Cons:
  "planned env args (x # xs) =
     (case CcxtExchange env x (api_keys args) of
        Inl _ \<Rightarrow> []
      | Inr ps \<Rightarrow> map (Pair x) (present_pairs args ps)) @ planned env args xs"
  by (simp add: planned_def)

lemma download_exchanges_log:
  assumes "download_exchanges env args s e ids log = (log', r)"
  shows "\<exists>new. log' = log @ new
       \<and> (\<exists>rest. planned env args ids = download_calls new @ rest \<and> (r = Inr () \<longrightarrow> rest = []))
       \<and> list_all2 (written_for env args s e)
           (take (length (csv_files new)) (planned env args ids)) (csv_files new)
       \<and> (r = Inr () \<longrightarrow> length (csv_files new) = length (planned env args ids))
       \<and> (\<forall>a \<in> set (butlast new). \<not> fails env a)
       \<and> (r = Inr () \<longrightarrow> (\<forall>a \<in> set new. \<not> fails env a))
       \<and> (r \<noteq> Inr () \<longrightarrow> new \<noteq> [] \<and> fails env (last new))"
  using assms
proof (induction ids arbitrary: log)
  case Nil
  then show ?case by (simp add: planned_def)
next
  case (Cons x xs)
  let ?m = "MakeExchange x (api_keys args)"
  show ?case
  proof (cases "CcxtExchange env x (api_keys args)")
    case (Inl err)
    with Cons.prems have "log' = log @ [?m]" "r = Inl err" by (simp_all add: Let_def)
    then show ?thesis using Inl
      by (intro exI [of _ "[?m]"]) (simp add: planned_Cons)
  next
    case (Inr ps)
    let ?pairs = "present_pairs args ps"
    obtain log1 r1 where inner: "download_pairs env args x s e ?pairs (log @ [?m]) = (log1, r1)"
      by (cases "download_pairs env args x s e ?pairs (log @ [?m])")
    from download_pairs_log [OF inner] obtain new1 rest1 where
      n1: "log1 = (log @ [?m]) @ new1"
      and c1: "map (Pair x) ?pairs = download_calls new1 @ rest1" "r1 = Inr () \<longrightarrow> rest1 = []"
      and f1: "list_all2 (written_for env args s e)
           (take (length (csv_files new1)) (map (Pair x) ?pairs)) (csv_files new1)"
      and l1: "r1 = Inr () \<longrightarrow> length (csv_files new1) = length ?pairs"
      and b1: "\<forall>a \<in> set (butlast new1). \<not> fails env a"
      and ok1: "r1 = Inr () \<longrightarrow> (\<forall>a \<in> set new1. \<not> fails env a)"
      and bad1: "r1 \<noteq> Inr () \<longrightarrow> new1 \<noteq> [] \<and> fails env (last new1)"
      by blast
    have m_ok: "\<not> fails env ?m" using Inr by simp
    have len1: "length (csv_files new1) \<le> length ?pairs"
      using list_all2_lengthD [OF f1] by simp
    have pl: "planned env args (x # xs) = map (Pair x) ?pairs @ planned env args xs"
      using Inr by (simp add: planned_Cons)
    show ?thesis
    proof (cases r1)
      case (Inl err)
      with Cons.prems Inr inner have res: "log' = log1" "r = Inl err" by (simp_all add: Let_def)
      have ne: "new1 \<noteq> []" and fl: "fails env (last new1)" using bad1 Inl by simp_all
      show ?thesis
      proof (intro exI [of _ "?m # new1"] conjI)
        show "log' = log @ ?m # new1" using res n1 by simp
        show "\<exists>rest. planned env args (x # xs) = download_calls (?m # new1) @ rest
            \<and> (r = Inr () \<longrightarrow> rest = [])"
          using c1 res pl by (intro exI [of _ "rest1 @ planned env args xs"]) simp
        show "list_all2 (written_for env args s e)
           (take (length (csv_files (?m # new1))) (planned env args (x # xs)))
           (csv_files (?m # new1))"
          using f1 len1 pl by simp
        show "r = Inr () \<longrightarrow> length (csv_files (?m # new1)) = length (planned env args (x # xs))"
          using res by simp
        show "\<forall>a \<in> set (butlast (?m # new1)). \<not> fails env a"
          using b1 m_ok ne by simp
        show "r = Inr () \<longrightarrow> (\<forall>a \<in> set (?m # new1). \<not> fails env a)" using res by simp
        show "r \<noteq> Inr () \<longrightarrow> ?m # new1 \<noteq> [] \<and> fails env (last (?m # new1))"
          using ne fl by simp
      qed
    next
      case (Inr u)
      then have r1: "r1 = Inr ()" by simp
      with Cons.prems \<open>CcxtExchange env x (api_keys args) = Inr ps\<close> inner
      have "download_exchanges env args s e xs log1 = (log', r)" by (simp add: Let_def)
      from Cons.IH [OF this] obtain new2 rest2 where
        n2: "log' = log1 @ new2"
        and c2: "planned env args xs = download_calls new2 @ rest2" "r = Inr () \<longrightarrow> rest2 = []"
        and f2: "list_all2 (written_for env args s e)
           (take (length (csv_files new2)) (planned env args xs)) (csv_files new2)"
        and l2: "r = Inr () \<longrightarrow> length (csv_files new2) = length (planned env args xs)"
        and b2: "\<forall>a \<in> set (butlast new2). \<not> fails env a"
        and ok2: "r = Inr () \<longrightarrow> (\<forall>a \<in> set new2. \<not> fails env a)"
        and bad2: "r \<noteq> Inr () \<longrightarrow> new2 \<noteq> [] \<and> fails env (last new2)"
        by blast
      have rest1: "rest1 = []" and len: "length (csv_files new1) = length ?pairs"
        and all1: "\<forall>a \<in> set new1. \<not> fails env a"
        using c1 l1 ok1 r1 by simp_all
      have f1': "list_all2 (written_for env args s e) (map (Pair x) ?pairs) (csv_files new1)"
        using f1 len by simp
      show ?thesis
      proof (intro exI [of _ "?m # new1 @ new2"] conjI)
        show "log' = log @ ?m # new1 @ new2" using n1 n2 by simp
        show "\<exists>rest. planned env args (x # xs) = download_calls (?m # new1 @ new2) @ rest
            \<and> (r = Inr () \<longrightarrow> rest = [])"
          using c1 c2 rest1 pl by (intro exI [of _ rest2]) simp
        show "list_all2 (written_for env args s e)
           (take (length (csv_files (?m # new1 @ new2))) (planned env args (x # xs)))
           (csv_files (?m # new1 @ new2))"
          using f1' f2 len pl by (simp add: list_all2_appendI)
        show "r = Inr () \<longrightarrow>
            length (csv_files (?m # new1 @ new2)) = length (planned env args (x # xs))"
          using l2 len pl by simp
        show "\<forall>a \<in> set (butlast (?m # new1 @ new2)). \<not> fails env a"
          using all1 b2 m_ok by (cases "new2 = []") (auto simp: butlast_append dest: in_set_butlastD)
        show "r = Inr () \<longrightarrow> (\<forall>a \<in> set (?m # new1 @ new2). \<not> fails env a)"
          using all1 ok2 m_ok by auto
        show "r \<noteq> Inr () \<longrightarrow> ?m # new1 @ new2 \<noteq> [] \<and> fails env (last (?m # new1 @ new2))"
          using bad2 by auto
      qed
    qed
  qed
qed

lemma download_historical_main_log:
  assumes "download_historical_main env args = (log, r)"
  shows "(\<exists>rest. planned env args (selected_exchange_ids args) = download_calls log @ rest
            \<and> (r = Inr () \<longrightarrow> rest = []))
       \<and> (r = Inr () \<longrightarrow>
            (\<exists>start_ts end_ts. list_all2 (written_for env args start_ts end_ts)
               (planned env args (selected_exchange_ids args)) (csv_files log)))
       \<and> (\<forall>a \<in> set (butlast log). \<not> fails env a)"
proof -
  let ?c = "CreateDir (dst_dir args) (incremental args)"
  let ?ids = "selected_exchange_ids args"
  show ?thesis
  proof (cases "pd_Timestamp env (start_datetime args)")
    case (Inl err)
    with assms have "log = [?c]" "r = Inl err"
      by (simp_all add: download_historical_main_def Let_def)
    then show ?thesis by simp
  next
    case (Inr s)
    let ?end = "if end_datetime args = None \<or> end_datetime args = Some []
                 then Inr (pd_Timestamp_now env)
                 else pd_Timestamp env (the (end_datetime args))"
    show ?thesis
    proof (cases ?end)
      case (Inl err)
      with Inr assms have "log = [?c]" "r = Inl err"
        by (simp_all add: download_historical_main_def Let_def split del: if_split cong: if_cong)
      then show ?thesis by simp
    next
      case e: (Inr e)
      with Inr assms have "download_exchanges env args s e ?ids [?c] = (log, r)"
        by (simp add: download_historical_main_def selected_exchange_ids_def Let_def
            split del: if_split cong: if_cong)
      from download_exchanges_log [OF this] obtain new rest where
        n: "log = [?c] @ new"
        and c: "planned env args ?ids = download_calls new @ rest" "r = Inr () \<longrightarrow> rest = []"
        and f: "list_all2 (written_for env args s e)
           (take (length (csv_files new)) (planned env args ?ids)) (csv_files new)"
        and l: "r = Inr () \<longrightarrow> length (csv_files new) = length (planned env args ?ids)"
        and b: "\<forall>a \<in> set (butlast new). \<not> fails env a"
        by blast
      have 1: "\<exists>rest. planned env args ?ids = download_calls log @ rest \<and> (r = Inr () \<longrightarrow> rest = [])"
        using n c by (intro exI [of _ rest]) simp
      have 2: "r = Inr () \<longrightarrow>
            (\<exists>start_ts end_ts. list_all2 (written_for env args start_ts end_ts)
               (planned env args ?ids) (csv_files log))"
      proof
        assume "r = Inr ()"
        with f l n have "list_all2 (written_for env args s e) (planned env args ?ids) (csv_files log)"
          by simp
        then show "\<exists>start_ts end_ts. list_all2 (written_for env args start_ts end_ts)
               (planned env args ?ids) (csv_files log)"
          by blast
      qed
      have 3: "\<forall>a \<in> set (butlast log). \<not> fails env a"
        using n b by (cases "new = []") auto
      from 1 2 3 show ?thesis by blast
    qed
  qed
qed

lemma download_adjustments_main_log:
  assumes "download_adjustments_main env args = (log, r)"
  shows "(case login_status_code env args of
            Inl e \<Rightarrow> http_gets log = [(API_ENDPOINT env, login_params args)] \<and> r = Inl e
          | Inr status_code \<Rightarrow>
              if status_code \<in> set [200, 407]
              then http_gets log = [(API_ENDPOINT env, login_params args),
                                    (API_ENDPOINT env, adjustments_params args)]
              else http_gets log = [(API_ENDPOINT env, login_params args)]
                   \<and> r = Inl AssertionError)"
  using assms
  by (auto simp: download_adjustments_main_def login_status_code_def Let_def
      split: sum.splits list.splits if_splits)

lemma planned_fst:
  "p \<in> set (planned env args ids) \<Longrightarrow> fst p \<in> set ids"
  by (auto simp: planned_def split: sum.splits)

lemma distinct_present_pairs:
  assumes "if currency_pairs args = ''all'' then distinct ps
           else distinct (str_split (currency_pairs args))"
  shows "distinct (present_pairs args ps)"
  using assms by (simp add: present_pairs_def split: if_splits)

lemma distinct_planned:
  assumes "distinct ids"
      and "\<And>exchange_id ps. exchange_id \<in> set ids \<Longrightarrow>
             CcxtExchange env exchange_id (api_keys args) = Inr ps \<Longrightarrow>
             distinct (present_pairs args ps)"
  shows "distinct (planned env args ids)"
  using assms
proof (induction ids)
  case Nil
  then show ?case by (simp add: planned_def)
next
  case (Cons x xs)
  have tl: "distinct (planned env args xs)"
    using Cons.prems by (intro Cons.IH) auto
  have notin: "\<And>b. (x, b) \<notin> set (planned env args xs)"
    using planned_fst [of _ env args xs] Cons.prems(1) by fastforce
  show ?case
  proof (cases "CcxtExchange env x (api_keys args)")
    case (Inl e)
    with tl show ?thesis by (simp add: planned_Cons)
  next
    case (Inr ps)
    have "distinct (present_pairs args ps)" using Cons.prems(2) [of x ps] Inr by simp
    then have "distinct (map (Pair x) (present_pairs args ps))"
      by (simp add: distinct_map inj_on_def)
    with tl notin Inr show ?thesis by (auto simp: planned_Cons)
  qed
qed

lemma download_calls_distinct:
  assumes run: "download_historical_main env args = (log, r)"
      and ids: "distinct (selected_exchange_ids args)"
      and pairs: "if currency_pairs args = ''all''
                  then \<forall>exchange_id \<in> set (selected_exchange_ids args). \<forall>ps.
                         CcxtExchange env exchange_id (api_keys args) = Inr ps \<longrightarrow> distinct ps
                  else distinct (str_split (currency_pairs args))"
  shows "distinct (download_calls log)"
proof -
  have "distinct (planned env args (selected_exchange_ids args))"
  proof (rule distinct_planned [OF ids])
    fix exchange_id ps
    assume "exchange_id \<in> set (selected_exchange_ids args)"
      "CcxtExchange env exchange_id (api_keys args) = Inr ps"
    with pairs show "distinct (present_pairs args ps)"
      by (intro distinct_present_pairs) (auto split: if_splits)
  qed
  moreover from download_historical_main_log [OF run] obtain rest where
    "planned env args (selected_exchange_ids args) = download_calls log @ rest" by blast
  ultimately show ?thesis by simp
qed

subsection \<open>The downloaders at the concrete inputs\<close>

lemma hist_run0:
  "download_historical_main ccxt_env0 hist_args0 =
     ([CreateDir ''test'' False, MakeExchange ''binance'' ''keys.json'',
       DownloadOhlcv ''binance'' ''BTC/USDT'' 1 2 None, Sleep 60,
       ToCsv ''test/binance_BTC_USDT.csv.gz'' ''binance:BTC/USDT''], Inr ())"
  by (simp add: download_historical_main_def ccxt_env0_def hist_args0_def present_pairs_def
      str_split_def isspace_def csv_file_name_def str_replace_char_def os_path_join_def Let_def)

lemma hist_run1:
  "download_historical_main ccxt_env0 hist_args1 =
     ([CreateDir ''test'' False, MakeExchange ''binance'' ''keys.json'',
       DownloadOhlcv ''binance'' ''ETH/USDT'' 1 2 None], Inl (ExternalError ''timeout''))"
  by (simp add: download_historical_main_def ccxt_env0_def hist_args0_def hist_args1_def
      present_pairs_def str_split_def isspace_def csv_file_name_def str_replace_char_def
      os_path_join_def Let_def)

lemma planned0:
  "planned ccxt_env0 hist_args0 (selected_exchange_ids hist_args0) = [(''binance'', ''BTC/USDT'')]"
  "planned ccxt_env0 hist_args1 (selected_exchange_ids hist_args1)
     = [(''binance'', ''ETH/USDT''), (''binance'', ''BTC/USDT'')]"
  by (simp_all add: planned_def selected_exchange_ids_def ccxt_env0_def hist_args0_def
      hist_args1_def present_pairs_def str_split_def isspace_def)

lemma adj_run_ok:
  "download_adjustments_main (kibot_env0 ''407 already logged in'') adj_args0 =
     ([KCreateDir ''tmp.kibot_downloader'' True,
       HttpGet ''http://api.kibot.com''
         [(''action'', ''login''), (''user'', ''alice''), (''password'', ''secret'')],
       HttpGet ''http://api.kibot.com''
         [(''action'', ''adjustments''), (''symbol'', ''allsymbols''), (''startdate'', ''5/1/2020'')],
       ToFile ''tmp.kibot_downloader/metadata/raw/adjustments/downloads_5/1/2020.txt'' ''AAPL,1.5'',
       System (''aws s3 cp tmp.kibot_downloader/metadata/raw/adjustments/downloads_5/1/2020.txt ''
               @ ''s3://bucket/kibot/metadata/raw/adjustments/downloads_5/1/2020.txt'')],
      Inr 0)"
  by (simp add: download_adjustments_main_def kibot_env0_def adj_args0_def login_params_def
      adjustments_params_def str_split_def isspace_def os_path_join_def SUB_DIR_def S3_PREFIX_def
      Let_def)

lemma adj_run_denied:
  "download_adjustments_main (kibot_env0 ''401 denied'') adj_args0 =
     ([KCreateDir ''tmp.kibot_downloader'' True,
       HttpGet ''http://api.kibot.com''
         [(''action'', ''login''), (''user'', ''alice''), (''password'', ''secret'')]],
      Inl AssertionError)"
  by (simp add: download_adjustments_main_def kibot_env0_def adj_args0_def login_params_def
      adjustments_params_def str_split_def isspace_def os_path_join_def SUB_DIR_def S3_PREFIX_def
      Let_def)

lemma login_status0:
  "login_status_code (kibot_env0 ''407 already logged in'') adj_args0 = Inr 407"
  "login_status_code (kibot_env0 ''401 denied'') adj_args0 = Inr 401"
  by (simp_all add: login_status_code_def kibot_env0_def adj_args0_def login_params_def
      str_split_def isspace_def)

lemma hist_run_twice:
  "download_historical_main ccxt_env0 hist_args_twice =
     ([CreateDir ''test'' False, MakeExchange ''binance'' ''keys.json'',
       DownloadOhlcv ''binance'' ''BTC/USDT'' 1 2 None, Sleep 60,
       ToCsv ''test/binance_BTC_USDT.csv.gz'' ''binance:BTC/USDT'',
       DownloadOhlcv ''binance'' ''BTC/USDT'' 1 2 None, Sleep 60,
       ToCsv ''test/binance_BTC_USDT.csv.gz'' ''binance:BTC/USDT''], Inr ())"
  by (simp add: download_historical_main_def ccxt_env0_def hist_args0_def hist_args_twice_def
      present_pairs_def str_split_def isspace_def csv_file_name_def str_replace_char_def
      os_path_join_def Let_def)

lemma hist_args0_distinct:
  "distinct (selected_exchange_ids hist_args0)"
  "currency_pairs hist_args0 \<noteq> ''all''"
  "distinct (str_split (currency_pairs hist_args0))"
  by (simp_all add: selected_exchange_ids_def hist_args0_def str_split_def isspace_def)

subsection \<open>Each request once, in order, no retry\<close>

text \<open>
  Claim C8, as the code has it. \<^verbatim>\<open>download_historical._main\<close> runs two nested
  loops, over the exchange ids and, within each, over the pairs present in the exchange.
  The download calls of a run are, in order, an initial part of the planned
  (exchange, pair) combinations, one call for each turn of the inner loop, and all of
  them when the run returns; then there is one file per call, holding what that call
  returned, named \<^verbatim>\<open><exchange_id>_<pair with / replaced by _>.csv.gz\<close> and joined to
  \<^verbatim>\<open>dst_dir\<close>. No call that failed is followed by anything: the run ends there.
  The lists are iterated as given, with their repetitions: no (exchange, pair) is
  requested twice when no exchange id is repeated and no pair is repeated
  (on the command line, or, for \<^verbatim>\<open>all\<close>, in the list the exchange reports).
  \<^verbatim>\<open>download_adjustments._main\<close> issues the login request once; it issues the
  adjustments request, once, exactly when the login answer's status code is 200 or 407,
  and otherwise ends with the one request made (with an assertion error when the code is
  another number).
\<close>

theorem downloaders_request_once:
  "(download_historical_main env args = (log, r) \<longrightarrow>
      (\<exists>rest. planned env args (selected_exchange_ids args) = download_calls log @ rest
            \<and> (r = Inr () \<longrightarrow> rest = []))
      \<and> (r = Inr () \<longrightarrow>
            (\<exists>start_ts end_ts. list_all2 (written_for env args start_ts end_ts)
               (planned env args (selected_exchange_ids args)) (csv_files log)))
      \<and> (\<forall>a \<in> set (butlast log). \<not> fails env a)
      \<and> (distinct (selected_exchange_ids args) \<longrightarrow>
           (if currency_pairs args = ''all''
            then \<forall>exchange_id \<in> set (selected_exchange_ids args). \<forall>ps.
                   CcxtExchange env exchange_id (api_keys args) = Inr ps \<longrightarrow> distinct ps
            else distinct (str_split (currency_pairs args))) \<longrightarrow>
           distinct (download_calls log)))
   \<and> (download_adjustments_main kenv kargs = (klog, kr) \<longrightarrow>
        (case login_status_code kenv kargs of
            Inl e \<Rightarrow> http_gets klog = [(API_ENDPOINT kenv, login_params kargs)] \<and> kr = Inl e
          | Inr status_code \<Rightarrow>
              if status_code \<in> set [200, 407]
              then http_gets klog = [(API_ENDPOINT kenv, login_params kargs),
                                     (API_ENDPOINT kenv, adjustments_params kargs)]
              else http_gets klog = [(API_ENDPOINT kenv, login_params kargs)]
                   \<and> kr = Inl AssertionError))"
  (is "(?R \<longrightarrow> ?A \<and> ?B \<and> ?C \<and> ?D) \<and> ?Q")
proof (rule conjI)
  show "?R \<longrightarrow> ?A \<and> ?B \<and> ?C \<and> ?D"
  proof (rule impI)
    assume run: ?R
    note l = download_historical_main_log [OF run]
    have d: ?D
      by (intro impI, rule download_calls_distinct [OF run], assumption+)
    show "?A \<and> ?B \<and> ?C \<and> ?D"
      by (intro conjI l [THEN conjunct1] l [THEN conjunct2, THEN conjunct1]
          l [THEN conjunct2, THEN conjunct2] d)
  qed
  show ?Q
    using download_adjustments_main_log [of kenv kargs klog kr] by blast
qed

theorem downloaders_request_once_witness:
  "snd (download_historical_main ccxt_env0 hist_args0) = Inr ()
   \<and> download_calls (fst (download_historical_main ccxt_env0 hist_args0))
       = [(''binance'', ''BTC/USDT'')]
   \<and> csv_files (fst (download_historical_main ccxt_env0 hist_args0))
       = [(''test/binance_BTC_USDT.csv.gz'', ''binance:BTC/USDT'')]
   \<and> (\<exists>start_ts end_ts. list_all2 (written_for ccxt_env0 hist_args0 start_ts end_ts)
         [(''binance'', ''BTC/USDT'')]
         (csv_files (fst (download_historical_main ccxt_env0 hist_args0))))
   \<and> distinct (download_calls (fst (download_historical_main ccxt_env0 hist_args0)))
   \<and> snd (download_historical_main ccxt_env0 hist_args1) = Inl (ExternalError ''timeout'')
   \<and> download_calls (fst (download_historical_main ccxt_env0 hist_args1))
       = [(''binance'', ''ETH/USDT'')]
   \<and> http_gets (fst (download_adjustments_main (kibot_env0 ''407 already logged in'') adj_args0))
       = [(''http://api.kibot.com'',
            [(''action'', ''login''), (''user'', ''alice''), (''password'', ''secret'')]),
          (''http://api.kibot.com'',
            [(''action'', ''adjustments''), (''symbol'', ''allsymbols''),
             (''startdate'', ''5/1/2020'')])]
   \<and> http_gets (fst (download_adjustments_main (kibot_env0 ''401 denied'') adj_args0))
       = [(''http://api.kibot.com'',
            [(''action'', ''login''), (''user'', ''alice''), (''password'', ''secret'')])]
   \<and> snd (download_adjustments_main (kibot_env0 ''401 denied'') adj_args0) = Inl AssertionError"
proof -
  let ?log0 = "fst (download_historical_main ccxt_env0 hist_args0)"
  have r0: "download_historical_main ccxt_env0 hist_args0 = (?log0, Inr ())"
    by (simp add: hist_run0)
  note t0 = downloaders_request_once [where env = ccxt_env0 and args = hist_args0
      and log = ?log0 and r = "Inr ()", THEN conjunct1, rule_format, OF r0]
  from t0 [THEN conjunct1] have a: "download_calls ?log0 = [(''binance'', ''BTC/USDT'')]"
    by (auto simp: planned0)
  from t0 [THEN conjunct2, THEN conjunct1]
  have b: "\<exists>start_ts end_ts. list_all2 (written_for ccxt_env0 hist_args0 start_ts end_ts)
         [(''binance'', ''BTC/USDT'')] (csv_files ?log0)"
    by (simp add: planned0)
  have p: "if currency_pairs hist_args0 = ''all''
      then \<forall>exchange_id \<in> set (selected_exchange_ids hist_args0). \<forall>ps.
             CcxtExchange ccxt_env0 exchange_id (api_keys hist_args0) = Inr ps \<longrightarrow> distinct ps
      else distinct (str_split (currency_pairs hist_args0))"
    by (simp add: hist_args0_distinct)
  from t0 [THEN conjunct2, THEN conjunct2, THEN conjunct2, THEN mp, THEN mp,
      OF hist_args0_distinct(1) p]
  have f: "distinct (download_calls ?log0)" .
  let ?kok = "download_adjustments_main (kibot_env0 ''407 already logged in'') adj_args0"
  have "http_gets (fst ?kok) = [(API_ENDPOINT (kibot_env0 ''407 already logged in''), login_params adj_args0),
       (API_ENDPOINT (kibot_env0 ''407 already logged in''), adjustments_params adj_args0)]"
    using downloaders_request_once [where kenv = "kibot_env0 ''407 already logged in''"
        and kargs = adj_args0 and klog = "fst ?kok" and kr = "snd ?kok", THEN conjunct2]
    by (simp add: login_status0)
  then have c: "http_gets (fst ?kok)
       = [(''http://api.kibot.com'',
            [(''action'', ''login''), (''user'', ''alice''), (''password'', ''secret'')]),
          (''http://api.kibot.com'',
            [(''action'', ''adjustments''), (''symbol'', ''allsymbols''),
             (''startdate'', ''5/1/2020'')])]"
    by (simp add: kibot_env0_def login_params_def adjustments_params_def adj_args0_def)
  let ?kno = "download_adjustments_main (kibot_env0 ''401 denied'') adj_args0"
  have "http_gets (fst ?kno) = [(API_ENDPOINT (kibot_env0 ''401 denied''), login_params adj_args0)]
      \<and> snd ?kno = Inl AssertionError"
    using downloaders_request_once [where kenv = "kibot_env0 ''401 denied''"
        and kargs = adj_args0 and klog = "fst ?kno" and kr = "snd ?kno", THEN conjunct2]
    by (simp add: login_status0)
  then have d: "http_gets (fst ?kno)
       = [(''http://api.kibot.com'',
            [(''action'', ''login''), (''user'', ''alice''), (''password'', ''secret'')])]"
    and e: "snd ?kno = Inl AssertionError"
    by (simp_all add: kibot_env0_def login_params_def adj_args0_def)
  from a b c d e f show ?thesis by (simp add: hist_run0 hist_run1)
qed

text \<open>
  The claim as written says one call per (exchange, pair). With the pair given twice on
  the command line (\<^verbatim>\<open>--currency_pairs 'BTC/USDT BTC/USDT'\<close>) the run returns
  after two calls of \<^verbatim>\<open>download_ohlcv_data\<close> for \<^verbatim>\<open>(binance, BTC/USDT)\<close>, and
  writes the same file twice.
\<close>

theorem repeated_pair_downloaded_twice_counterexample:
  "snd (download_historical_main ccxt_env0 hist_args_twice) = Inr ()
   \<and> download_calls (fst (download_historical_main ccxt_env0 hist_args_twice))
       = [(''binance'', ''BTC/USDT''), (''binance'', ''BTC/USDT'')]
   \<and> \<not> distinct (download_calls (fst (download_historical_main ccxt_env0 hist_args_twice)))
   \<and> csv_files (fst (download_historical_main ccxt_env0 hist_args_twice))
       = [(''test/binance_BTC_USDT.csv.gz'', ''binance:BTC/USDT''),
          (''test/binance_BTC_USDT.csv.gz'', ''binance:BTC/USDT'')]"
  by (simp add: hist_run_twice)

subsection \<open>The steps of the notebook publisher\<close>

lemma export_notebook_to_dir_ok:
  assumes "export_notebook_to_dir env src tg d log = (log', Inr moved_to)"
  shows "moved_to = os_path_join d (os_path_basename (html_dst_file_name env src tg))
       \<and> log' = log @ [NbSystem (nbconvert_cmd src (html_dst_file_name env src tg)),
                        NbCreateDir d True,
                        NbSystem (mv_cmd (html_dst_file_name env src tg) moved_to)]"
  using assms
  by (auto simp: export_notebook_to_dir_def export_notebook_to_html_def Let_def
      split: sum.splits prod.splits)

lemma post_to_s3_ok:
  assumes "post_to_s3 env local_src_path s3_path aws_profile log = (log', Inr remote_path)"
  shows "remote_path = os_path_join s3_path (os_path_basename local_src_path)
       \<and> log' = log @ [S3fsPut aws_profile local_src_path remote_path]"
  using assms
  by (auto simp: post_to_s3_def Let_def split: sum.splits if_splits)

lemma source_file_log:
  assumes "source_file env args = (pre, r)"
  shows "pre = [] \<or> (\<exists>cmd. pre = [NbSystem cmd])"
  using assms
  by (auto simp: source_file_def get_file_from_git_branch_def Let_def split: if_splits sum.splits)

lemma main_open_ok:
  assumes "main_open env args = (log, Inr ())"
  shows "\<exists>aws_profile. get_aws_profile env args = Inr aws_profile
       \<and> log = [NbSystem (''aws s3 ls --profile '' @ aws_profile @ '' '' @ arg_file args),
                NbSystem (''aws s3 cp --profile '' @ aws_profile @ '' '' @ arg_file args
                          @ '' '' @ os_path_basename (arg_file args)),
                OpenFile (os_path_basename (arg_file args)), SysExit 0]"
  using assms
  by (auto simp: main_open_def Let_def split: sum.splits)

lemma export_notebook_to_dir_ok':
  assumes "export_notebook_to_dir env src tg d log = (log', Inr p)"
  shows "p = html_dst_path env src tg d
       \<and> log' = log @ [NbSystem (nbconvert_cmd src (html_dst_file_name env src tg)),
                        NbCreateDir d True,
                        NbSystem (mv_cmd (html_dst_file_name env src tg) (html_dst_path env src tg d))]"
  using export_notebook_to_dir_ok [OF assms] by (simp add: html_dst_path_def)

subsection \<open>The notebook publisher at the concrete inputs\<close>

lemma nb_get_path0: "get_path nb_env0 ''nb.ipynb'' = Inr ''nb.ipynb''"
  by code_simp

lemma nb_html0: "html_dst_file_name nb_env0 ''nb.ipynb'' [] = ''/work/nb.20200101_120000.html''"
  by code_simp

lemma nb_moved0: "html_dst_path nb_env0 ''nb.ipynb'' [] ''.'' = ''./nb.20200101_120000.html''"
  by code_simp

lemma nb_run_s3:
  "publish_notebook_main nb_env0 nb_args_s3 =
     ([NbSystem ''jupyter nbconvert nb.ipynb --to html --output /work/nb.20200101_120000.html'',
       NbCreateDir ''.'' True,
       NbSystem ''mv /work/nb.20200101_120000.html ./nb.20200101_120000.html'',
       S3fsPut ''am'' ''./nb.20200101_120000.html'' ''s3://bucket/notebooks/nb.20200101_120000.html''],
      Inr ())"
  by code_simp

lemma nb_run_open:
  "publish_notebook_main nb_env0 nb_args_open =
     ([NbSystem ''aws s3 ls --profile am s3://bucket/notebooks/nb.20200101_120000.html'',
       NbSystem (''aws s3 cp --profile am s3://bucket/notebooks/nb.20200101_120000.html ''
                 @ ''nb.20200101_120000.html''),
       OpenFile ''nb.20200101_120000.html'', SysExit 0],
      Inr ())"
  by code_simp

subsection \<open>What the notebook publisher leaves to others\<close>

text \<open>
  Claim C9, as the code has it. A run of \<^verbatim>\<open>publish_notebook.py\<close> that returns
  does the following, and nothing else, to the outside. For action \<^verbatim>\<open>open\<close>: the
  commands \<^verbatim>\<open>aws s3 ls\<close> and \<^verbatim>\<open>aws s3 cp\<close> on the file, then the file is
  opened. For \<^verbatim>\<open>convert\<close>, \<^verbatim>\<open>publish_locally\<close> and \<^verbatim>\<open>publish_on_s3\<close>: after
  at most one \<^verbatim>\<open>git show\<close> command, the HTML is made by the command
  \<^verbatim>\<open>jupyter nbconvert <file> --to html --output <dst>\<close> and moved by a \<^verbatim>\<open>mv\<close>
  command. The script converts nothing itself. The upload of \<^verbatim>\<open>publish_on_s3\<close>,
  though, is no external command: it is the call \<^verbatim>\<open>s3fs.put\<close> on the S3 file system
  object, made in the script's own process.
\<close>

theorem publish_notebook_delegates:
  assumes run: "publish_notebook_main env args = (log, Inr ())"
  shows "(arg_action args = Some ''open'' \<longrightarrow>
          (\<exists>aws_profile. get_aws_profile env args = Inr aws_profile
             \<and> log = [NbSystem (''aws s3 ls --profile '' @ aws_profile @ '' '' @ arg_file args),
                      NbSystem (''aws s3 cp --profile '' @ aws_profile @ '' '' @ arg_file args
                                @ '' '' @ os_path_basename (arg_file args)),
                      OpenFile (os_path_basename (arg_file args)), SysExit 0]))
       \<and> (arg_action args = Some ''convert'' \<longrightarrow>
          (\<exists>pre src. source_file env args = (pre, Inr src) \<and> list_all external_command pre
             \<and> log = pre @
                 [NbSystem (nbconvert_cmd src (html_dst_file_name env src (arg_tag args))),
                  NbCreateDir ''.'' True,
                  NbSystem (mv_cmd (html_dst_file_name env src (arg_tag args))
                                   (html_dst_path env src (arg_tag args) ''.'')),
                  OpenFile (html_dst_path env src (arg_tag args) ''.'')]))
       \<and> (arg_action args = Some ''publish_locally'' \<longrightarrow>
          (\<exists>pre src d. source_file env args = (pre, Inr src) \<and> list_all external_command pre
             \<and> log = pre @
                 [NbCreateDir d True,
                  NbSystem (nbconvert_cmd src (html_dst_file_name env src (arg_tag args))),
                  NbCreateDir d True,
                  NbSystem (mv_cmd (html_dst_file_name env src (arg_tag args))
                                   (html_dst_path env src (arg_tag args) d))]))
       \<and> (arg_action args = Some ''publish_on_s3'' \<longrightarrow>
          (\<exists>pre src s3_path aws_profile. source_file env args = (pre, Inr src)
             \<and> list_all external_command pre
             \<and> get_s3_path env args = Inr s3_path \<and> get_aws_profile env args = Inr aws_profile
             \<and> log = pre @
                 [NbSystem (nbconvert_cmd src (html_dst_file_name env src (arg_tag args))),
                  NbCreateDir ''.'' True,
                  NbSystem (mv_cmd (html_dst_file_name env src (arg_tag args))
                                   (html_dst_path env src (arg_tag args) ''.'')),
                  S3fsPut aws_profile (html_dst_path env src (arg_tag args) ''.'')
                    (os_path_join s3_path
                       (os_path_basename (html_dst_path env src (arg_tag args) ''.'')))]))"
proof (intro conjI impI)
  assume "arg_action args = Some ''open''"
  with run have "main_open env args = (log, Inr ())" by (simp add: publish_notebook_main_def)
  then show "\<exists>aws_profile. get_aws_profile env args = Inr aws_profile
             \<and> log = [NbSystem (''aws s3 ls --profile '' @ aws_profile @ '' '' @ arg_file args),
                      NbSystem (''aws s3 cp --profile '' @ aws_profile @ '' '' @ arg_file args
                                @ '' '' @ os_path_basename (arg_file args)),
                      OpenFile (os_path_basename (arg_file args)), SysExit 0]"
    by (rule main_open_ok)
next
  assume a: "arg_action args = Some ''convert''"
  obtain pre r0 where sf: "source_file env args = (pre, r0)" by (cases "source_file env args")
  from run a sf obtain src where src: "r0 = Inr src"
    by (cases r0) (simp_all add: publish_notebook_main_def)
  have pre: "list_all external_command pre" using source_file_log [OF sf] by auto
  from run a sf src obtain log1 p where
    e: "export_notebook_to_dir env src (arg_tag args) ''.'' pre = (log1, Inr p)"
    and l: "log = log1 @ [OpenFile p]"
    by (auto simp: publish_notebook_main_def split: prod.splits sum.splits)
  from export_notebook_to_dir_ok' [OF e] l sf src pre
  show "\<exists>pre src. source_file env args = (pre, Inr src) \<and> list_all external_command pre
             \<and> log = pre @
                 [NbSystem (nbconvert_cmd src (html_dst_file_name env src (arg_tag args))),
                  NbCreateDir ''.'' True,
                  NbSystem (mv_cmd (html_dst_file_name env src (arg_tag args))
                                   (html_dst_path env src (arg_tag args) ''.'')),
                  OpenFile (html_dst_path env src (arg_tag args) ''.'')]"
    by auto
next
  assume a: "arg_action args = Some ''publish_locally''"
  obtain pre r0 where sf: "source_file env args = (pre, r0)" by (cases "source_file env args")
  from run a sf obtain src where src: "r0 = Inr src"
    by (cases r0) (simp_all add: publish_notebook_main_def)
  have pre: "list_all external_command pre" using source_file_log [OF sf] by auto
  from run a sf src obtain d p where
    e: "export_notebook_to_dir env src (arg_tag args) d (pre @ [NbCreateDir d True]) = (log, Inr p)"
    by (auto simp: publish_notebook_main_def split: prod.splits sum.splits option.splits if_splits)
  from export_notebook_to_dir_ok' [OF e] sf src pre
  show "\<exists>pre src d. source_file env args = (pre, Inr src) \<and> list_all external_command pre
             \<and> log = pre @
                 [NbCreateDir d True,
                  NbSystem (nbconvert_cmd src (html_dst_file_name env src (arg_tag args))),
                  NbCreateDir d True,
                  NbSystem (mv_cmd (html_dst_file_name env src (arg_tag args))
                                   (html_dst_path env src (arg_tag args) d))]"
    by auto
next
  assume a: "arg_action args = Some ''publish_on_s3''"
  obtain pre r0 where sf: "source_file env args = (pre, r0)" by (cases "source_file env args")
  from run a sf obtain src where src: "r0 = Inr src"
    by (cases r0) (simp_all add: publish_notebook_main_def)
  have pre: "list_all external_command pre" using source_file_log [OF sf] by auto
  from run a sf src obtain log1 p s3_path aws_profile remote where
    e: "export_notebook_to_dir env src (arg_tag args) ''.'' pre = (log1, Inr p)"
    and s: "get_s3_path env args = Inr s3_path" "get_aws_profile env args = Inr aws_profile"
    and u: "post_to_s3 env p s3_path aws_profile log1 = (log, Inr remote)"
    by (auto simp: publish_notebook_main_def split: prod.splits sum.splits)
  from export_notebook_to_dir_ok' [OF e] post_to_s3_ok [OF u] sf src pre s
  show "\<exists>pre src s3_path aws_profile. source_file env args = (pre, Inr src)
             \<and> list_all external_command pre
             \<and> get_s3_path env args = Inr s3_path \<and> get_aws_profile env args = Inr aws_profile
             \<and> log = pre @
                 [NbSystem (nbconvert_cmd src (html_dst_file_name env src (arg_tag args))),
                  NbCreateDir ''.'' True,
                  NbSystem (mv_cmd (html_dst_file_name env src (arg_tag args))
                                   (html_dst_path env src (arg_tag args) ''.'')),
                  S3fsPut aws_profile (html_dst_path env src (arg_tag args) ''.'')
                    (os_path_join s3_path
                       (os_path_basename (html_dst_path env src (arg_tag args) ''.'')))]"
    by auto
qed

theorem publish_notebook_delegates_witness:
  "(\<exists>aws_profile. get_aws_profile nb_env0 nb_args_open = Inr aws_profile
      \<and> fst (publish_notebook_main nb_env0 nb_args_open)
          = [NbSystem (''aws s3 ls --profile '' @ aws_profile @ '' '' @ arg_file nb_args_open),
             NbSystem (''aws s3 cp --profile '' @ aws_profile @ '' '' @ arg_file nb_args_open
                       @ '' '' @ os_path_basename (arg_file nb_args_open)),
             OpenFile (os_path_basename (arg_file nb_args_open)), SysExit 0])
   \<and> (\<exists>pre src s3_path aws_profile. source_file nb_env0 nb_args_s3 = (pre, Inr src)
      \<and> list_all external_command pre
      \<and> get_s3_path nb_env0 nb_args_s3 = Inr s3_path
      \<and> get_aws_profile nb_env0 nb_args_s3 = Inr aws_profile
      \<and> fst (publish_notebook_main nb_env0 nb_args_s3) = pre @
           [NbSystem (nbconvert_cmd src (html_dst_file_name nb_env0 src (arg_tag nb_args_s3))),
            NbCreateDir ''.'' True,
            NbSystem (mv_cmd (html_dst_file_name nb_env0 src (arg_tag nb_args_s3))
                             (html_dst_path nb_env0 src (arg_tag nb_args_s3) ''.'')),
            S3fsPut aws_profile (html_dst_path nb_env0 src (arg_tag nb_args_s3) ''.'')
              (os_path_join s3_path
                 (os_path_basename (html_dst_path nb_env0 src (arg_tag nb_args_s3) ''.'')))])"
proof -
  have o: "arg_action nb_args_open = Some ''open''"
    and s: "arg_action nb_args_s3 = Some ''publish_on_s3''"
    by (simp_all add: nb_args_open_def nb_args_s3_def)
  have ro: "publish_notebook_main nb_env0 nb_args_open
      = (fst (publish_notebook_main nb_env0 nb_args_open), Inr ())"
    and rs: "publish_notebook_main nb_env0 nb_args_s3
      = (fst (publish_notebook_main nb_env0 nb_args_s3), Inr ())"
    by (simp_all add: nb_run_open nb_run_s3)
  note a = publish_notebook_delegates [OF ro, THEN conjunct1, rule_format, OF o]
  note b = publish_notebook_delegates [OF rs, THEN conjunct2, THEN conjunct2, THEN conjunct2,
      rule_format, OF s]
  from a b show ?thesis by (rule conjI)
qed

text \<open>
  The claim as written says the script performs no S3 transfer itself. Publishing
  \<^verbatim>\<open>nb.ipynb\<close> on S3 ends with the upload made by \<^verbatim>\<open>s3fs.put\<close>, which is a
  step of the script's process and no external command.
\<close>

theorem in_process_s3_upload_counterexample:
  "publish_notebook_main nb_env0 nb_args_s3 =
     ([NbSystem ''jupyter nbconvert nb.ipynb --to html --output /work/nb.20200101_120000.html'',
       NbCreateDir ''.'' True,
       NbSystem ''mv /work/nb.20200101_120000.html ./nb.20200101_120000.html'',
       S3fsPut ''am'' ''./nb.20200101_120000.html'' ''s3://bucket/notebooks/nb.20200101_120000.html''],
      Inr ())
   \<and> list_ex in_process_s3_transfer (fst (publish_notebook_main nb_env0 nb_args_s3))
   \<and> \<not> external_command
         (S3fsPut ''am'' ''./nb.20200101_120000.html'' ''s3://bucket/notebooks/nb.20200101_120000.html'')"
  by (simp add: nb_run_s3)

end
